theory Spec2Isabelle
  imports Main "HOL-Library.Char_ord" "HOL-Library.List_Lexorder"
begin

section \<open>Bytes, integers and errors\<close>

text \<open>
  Python \<open>bytes\<close> are lists of 8-bit characters. A Python \<open>str\<close> that names a file is
  represented by its UTF-8 encoding, so \<open>.encode("utf-8")\<close> is the identity on the
  representation and \<open>.decode("utf-8")\<close> is the strict validity check \<open>decode_utf8\<close>.
  Every exception the modelled functions can raise is a constructor of \<open>error\<close>.
\<close>

type_synonym bytes = "char list"

datatype error =
    FileExistsError
  | FileNotFoundError
  | IsADirectoryError
  | NotADirectoryError
  | OSError
  | ValueError
  | TypeError
  | OverflowError
  | UnicodeDecodeError
  | InvalidTag
  | HTTPException nat string

text \<open>\<open>plain[a:b]\<close> for \<open>0 \<le> a \<le> b\<close>: Python slicing never raises, it truncates.\<close>

definition slice :: "'a list \<Rightarrow> nat \<Rightarrow> nat \<Rightarrow> 'a list" where
  "slice xs a b = take (b - a) (drop a xs)"


fun be_digits :: "nat \<Rightarrow> nat \<Rightarrow> bytes" where
  "be_digits 0 v = []"
| "be_digits (Suc n) v = be_digits n (v div 256) @ [char_of (v mod 256)]"

text \<open>\<open>v.to_bytes(n, "big")\<close> raises OverflowError when \<open>v\<close> does not fit in \<open>n\<close> bytes.\<close>

definition to_bytes :: "nat \<Rightarrow> nat \<Rightarrow> error + bytes" where
  "to_bytes v n = (if v < 256 ^ n then Inr (be_digits n v) else Inl OverflowError)"

text \<open>Strict UTF-8 well-formedness, as CPython's decoder checks it (no overlong forms,
  no surrogates, nothing above U+10FFFF).\<close>

definition cont :: "nat \<Rightarrow> bool" where
  "cont b = (128 \<le> b \<and> b \<le> 191)"

fun utf8_ok :: "nat list \<Rightarrow> bool" where
  "utf8_ok [] = True"
| "utf8_ok (a # r) =
     (if a < 128 then utf8_ok r
      else if 194 \<le> a \<and> a \<le> 223 then
        (case r of b # r1 \<Rightarrow> cont b \<and> utf8_ok r1 | _ \<Rightarrow> False)
      else if 224 \<le> a \<and> a \<le> 239 then
        (case r of b # c # r2 \<Rightarrow>
           (if a = 224 then 160 \<le> b \<and> b \<le> 191
            else if a = 237 then 128 \<le> b \<and> b \<le> 159
            else cont b) \<and> cont c \<and> utf8_ok r2
         | _ \<Rightarrow> False)
      else if 240 \<le> a \<and> a \<le> 244 then
        (case r of b # c # d # r3 \<Rightarrow>
           (if a = 240 then 144 \<le> b \<and> b \<le> 191
            else if a = 244 then 128 \<le> b \<and> b \<le> 143
            else cont b) \<and> cont c \<and> cont d \<and> utf8_ok r3
         | _ \<Rightarrow> False)
      else False)"

definition utf8_valid :: "bytes \<Rightarrow> bool" where
  "utf8_valid bs = utf8_ok (map of_char bs)"


section \<open>Paths (pathlib, POSIX flavour)\<close>

text \<open>
  A \<open>Path\<close> is its root (\<open>""\<close>, \<open>"/"\<close> or \<open>"//"\<close>) and its parts. Parsing a string
  splits it at \<open>/\<close> and drops empty and \<open>.\<close> segments; \<open>..\<close> segments are kept.
\<close>

datatype path = Path (root: string) (parts: "string list")

fun split_sep :: "'a \<Rightarrow> 'a list \<Rightarrow> 'a list list" where
  "split_sep s [] = [[]]"
| "split_sep s (x # xs) =
     (if x = s then [] # split_sep s xs
      else (case split_sep s xs of y # ys \<Rightarrow> (x # y) # ys | [] \<Rightarrow> [[x]]))"

definition parse_parts :: "string \<Rightarrow> string list" where
  "parse_parts s = filter (\<lambda>x. x \<noteq> [] \<and> x \<noteq> ''.'') (split_sep CHR ''/'' s)"

definition path_root :: "string \<Rightarrow> string" where
  "path_root s =
     (if take 1 s \<noteq> ''/'' then []
      else if take 2 s = ''//'' \<and> take 3 s \<noteq> ''///'' then ''//''
      else ''/'')"

text \<open>\<open>Path(s)\<close>\<close>

definition mk_path :: "string \<Rightarrow> path" where
  "mk_path s = Path (path_root s) (parse_parts s)"

text \<open>\<open>p.name\<close>: the final part, or the empty string when there is none.\<close>

definition path_name :: "path \<Rightarrow> string" where
  "path_name p = (case parts p of [] \<Rightarrow> [] | _ \<Rightarrow> last (parts p))"

text \<open>\<open>p / s\<close>: an absolute right operand replaces the left one.\<close>

definition joinpath :: "path \<Rightarrow> string \<Rightarrow> path" where
  "joinpath p s =
     (if path_root s \<noteq> [] then mk_path s
      else Path (root p) (parts p @ parse_parts s))"

section \<open>The world: file system, random source, durable snapshots\<close>

text \<open>
  The file system maps a path to a regular file or a directory. The model does not
  track permissions or name-length limits, and for a path whose last part is a name it
  does not check that the parent exists. A path without parts (\<open>.\<close> or \<open>/\<close>) is a
  directory. A path that ends in \<open>..\<close> is resolved through the path before the
  \<open>..\<close>: it is a directory when that one is, and it does not exist otherwise (so
  \<open>nope/..\<close> does not exist unless \<open>nope\<close> is a directory); nothing can be created
  under such a path. A \<open>..\<close> in the middle of a path is not resolved. A path with an
  embedded NUL is refused by \<open>open\<close> with ValueError, and \<open>Path.exists\<close> answers
  False for it.

  \<open>rng_next\<close> counts the draws made so far from the operating system's random source
  (\<open>os.urandom\<close>, behind both \<open>secrets.token_bytes\<close> and \<open>AESGCM.generate_key\<close>);
  the source itself is a parameter \<open>R\<close>, where \<open>R k i\<close> is byte \<open>i\<close> of draw \<open>k\<close>.
  \<open>synced\<close> lists, in order, each content that \<open>os.fsync\<close> has forced to stable storage.
\<close>

datatype node = File bytes | Dir

record world =
  fs :: "path \<Rightarrow> node option"
  rng_next :: nat
  synced :: "(path \<times> bytes) list"

definition has_nul :: "path \<Rightarrow> bool" where
  "has_nul p = (\<exists>c \<in> set (parts p). CHR 0x00 \<in> set c)"

text \<open>A path whose last part is a name, not \<open>..\<close>: the only kind that can name a file.\<close>

definition plain_path :: "path \<Rightarrow> bool" where
  "plain_path p = (parts p \<noteq> [] \<and> last (parts p) \<noteq> ''..'')"

text \<open>Resolution of a path given by its root and its parts, last part first.\<close>

fun resolve :: "(path \<Rightarrow> node option) \<Rightarrow> string \<Rightarrow> string list \<Rightarrow> node option" where
  "resolve f r [] = Some Dir"
| "resolve f r (c # cs) =
     (if c = ''..'' then (case resolve f r cs of Some Dir \<Rightarrow> Some Dir | _ \<Rightarrow> None)
      else f (Path r (rev (c # cs))))"

definition node_at :: "world \<Rightarrow> path \<Rightarrow> node option" where
  "node_at w p = resolve (fs w) (root p) (rev (parts p))"

text \<open>The path left when the trailing \<open>..\<close> parts are dropped.\<close>

definition base :: "path \<Rightarrow> path" where
  "base p = Path (root p) (rev (dropWhile (\<lambda>c. c = ''..'') (rev (parts p))))"

text \<open>The error of opening a path that does not exist: ENOTDIR when the path runs
  through a regular file, ENOENT otherwise.\<close>

definition missing_error :: "world \<Rightarrow> path \<Rightarrow> error" where
  "missing_error w p =
     (case fs w (base p) of Some (File b) \<Rightarrow> NotADirectoryError | _ \<Rightarrow> FileNotFoundError)"

definition path_exists :: "world \<Rightarrow> path \<Rightarrow> bool" where
  "path_exists w p = (\<not> has_nul p \<and> node_at w p \<noteq> None)"

definition read_bytes :: "path \<Rightarrow> world \<Rightarrow> error + bytes" where
  "read_bytes p w =
     (if has_nul p then Inl ValueError
      else case node_at w p of
             None \<Rightarrow> Inl (missing_error w p)
           | Some Dir \<Rightarrow> Inl IsADirectoryError
           | Some (File b) \<Rightarrow> Inr b)"

definition put_file :: "path \<Rightarrow> bytes \<Rightarrow> world \<Rightarrow> world" where
  "put_file p b w = w\<lparr>fs := (fs w)(p \<mapsto> File b)\<rparr>"

text \<open>\<open>p.write_bytes(b)\<close>, and \<open>open(p, "wb")\<close> followed by one write.\<close>

definition write_bytes :: "path \<Rightarrow> bytes \<Rightarrow> world \<Rightarrow> (error + unit) \<times> world" where
  "write_bytes p b w =
     (if has_nul p then (Inl ValueError, w)
      else if node_at w p = Some Dir then (Inl IsADirectoryError, w)
      else if \<not> plain_path p then (Inl (missing_error w p), w)
      else (Inr (), put_file p b w))"

text \<open>The paths \<open>write_bytes\<close> accepts.\<close>

definition writable :: "world \<Rightarrow> path \<Rightarrow> bool" where
  "writable w p = (\<not> has_nul p \<and> plain_path p \<and> fs w p \<noteq> Some Dir)"


text \<open>\<open>secrets.token_bytes(n)\<close>: the next draw, \<open>n\<close> bytes long.\<close>

definition draw :: "(nat \<Rightarrow> nat \<Rightarrow> char) \<Rightarrow> nat \<Rightarrow> nat \<Rightarrow> bytes" where
  "draw R k n = map (R k) [0..<n]"

definition token_bytes :: "(nat \<Rightarrow> nat \<Rightarrow> char) \<Rightarrow> nat \<Rightarrow> world \<Rightarrow> bytes \<times> world" where
  "token_bytes R n w = (draw R (rng_next w) n, w\<lparr>rng_next := Suc (rng_next w)\<rparr>)"

section \<open>Authenticated encryption (AES-GCM) as a parameter\<close>

text \<open>
  The cipher of the \<open>cryptography\<close> package is not part of the repository. It is a
  parameter: \<open>encrypt key nonce plaintext\<close> and \<open>decrypt key nonce ciphertext\<close>, the
  latter \<open>None\<close> when the tag does not verify. The wrappers add the argument checks of
  the library: key sizes 16, 24 or 32 bytes, nonce sizes 8 to 128 bytes.
\<close>

record aead =
  encrypt :: "bytes \<Rightarrow> bytes \<Rightarrow> bytes \<Rightarrow> bytes"
  decrypt :: "bytes \<Rightarrow> bytes \<Rightarrow> bytes \<Rightarrow> bytes option"

definition aead_correct :: "aead \<Rightarrow> bool" where
  "aead_correct A = (\<forall>k n p. decrypt A k n (encrypt A k n p) = Some p)"

definition AESGCM :: "bytes \<Rightarrow> error + bytes" where
  "AESGCM k = (if length k \<in> {16, 24, 32} then Inr k else Inl ValueError)"

definition nonce_ok :: "bytes \<Rightarrow> bool" where
  "nonce_ok n = (8 \<le> length n \<and> length n \<le> 128)"

definition aes_encrypt :: "aead \<Rightarrow> bytes \<Rightarrow> bytes \<Rightarrow> bytes \<Rightarrow> error + bytes" where
  "aes_encrypt A k n p = (if nonce_ok n then Inr (encrypt A k n p) else Inl ValueError)"

definition aes_decrypt :: "aead \<Rightarrow> bytes \<Rightarrow> bytes \<Rightarrow> bytes \<Rightarrow> error + bytes" where
  "aes_decrypt A k n c =
     (if \<not> nonce_ok n then Inl ValueError
      else case decrypt A k n c of None \<Rightarrow> Inl InvalidTag | Some p \<Rightarrow> Inr p)"

section \<open>Key store\<close>

definition generate_key_bytes :: "(nat \<Rightarrow> nat \<Rightarrow> char) \<Rightarrow> world \<Rightarrow> bytes \<times> world" where
  "generate_key_bytes R w = token_bytes R 32 w"

text \<open>\<open>save_key\<close>: the \<open>chmod\<close> is wrapped in \<open>try/except: pass\<close> and modes are not modelled.\<close>

definition save_key :: "bytes \<Rightarrow> path \<Rightarrow> world \<Rightarrow> (error + unit) \<times> world" where
  "save_key key_bytes keypath w = write_bytes keypath key_bytes w"

definition load_key :: "path \<Rightarrow> world \<Rightarrow> error + bytes" where
  "load_key keypath w = read_bytes keypath w"

section \<open>Container codec\<close>

definition MAGIC :: bytes where
  "MAGIC = ''CRYPTOCNT1''"

text \<open>
  The block \<open>with open(container_path, "wb") as f: f.write(..) ...\<close>. Opening truncates
  the file; the chunks are then written in order. \<open>fault = Some k\<close> is an I/O error
  (disk full, device error) after \<open>k\<close> chunks have been written; \<open>None\<close> is no fault.
\<close>

definition write_chunks :: "nat option \<Rightarrow> path \<Rightarrow> bytes list \<Rightarrow> world \<Rightarrow> (error + unit) \<times> world" where
  "write_chunks fault p chunks w =
     (if has_nul p then (Inl ValueError, w)
      else if node_at w p = Some Dir then (Inl IsADirectoryError, w)
      else if \<not> plain_path p then (Inl (missing_error w p), w)
      else (case fault of
              None \<Rightarrow> (Inr (), put_file p (concat chunks) w)
            | Some k \<Rightarrow>
                if k < length chunks then (Inl OSError, put_file p (concat (take k chunks)) w)
                else (Inr (), put_file p (concat chunks) w)))"

definition create_encrypted_container ::
  "aead \<Rightarrow> (nat \<Rightarrow> nat \<Rightarrow> char) \<Rightarrow> nat option \<Rightarrow> path \<Rightarrow> path \<Rightarrow> world \<Rightarrow> (error + unit) \<times> world" where
  "create_encrypted_container A R fault container_path key_path w =
     (if path_exists w container_path then (Inl FileExistsError, w)
      else
        let (kr, w1) =
              (if \<not> path_exists w key_path then
                 (let (k, w0) = generate_key_bytes R w in
                  case save_key k key_path w0 of
                    (Inl e, w0') \<Rightarrow> (Inl e, w0')
                  | (Inr u, w0') \<Rightarrow> (Inr k, w0'))
               else (load_key key_path w, w))
        in case kr of
             Inl e \<Rightarrow> (Inl e, w1)
           | Inr k \<Rightarrow>
               (case AESGCM k of
                  Inl e \<Rightarrow> (Inl e, w1)
                | Inr aes \<Rightarrow>
                    let (nonce, w2) = token_bytes R 12 w1 in
                    case aes_encrypt A aes nonce [] of
                      Inl e \<Rightarrow> (Inl e, w2)
                    | Inr ct \<Rightarrow>
                        write_chunks fault container_path
                          [MAGIC, [char_of (length nonce)], nonce, ct] w2))"

text \<open>
  The reading block shared by \<open>add_file_to_container\<close>, \<open>list_container\<close> and
  \<open>extract_all\<close>: magic, one length byte (\<open>ord\<close> of an empty read raises TypeError),
  the nonce, and the rest as ciphertext.
\<close>

definition read_container :: "path \<Rightarrow> world \<Rightarrow> error + (bytes \<times> bytes)" where
  "read_container container_path w =
     (case read_bytes container_path w of
        Inl e \<Rightarrow> Inl e
      | Inr f \<Rightarrow>
          if take (length MAGIC) f \<noteq> MAGIC then Inl (HTTPException 400 ''bad container'')
          else (case drop (length MAGIC) f of
                  [] \<Rightarrow> Inl TypeError
                | c # rest \<Rightarrow> Inr (take (of_char c) rest, drop (of_char c) rest)))"

text \<open>Key, cipher object, container header and decryption, in the order of the source.\<close>

definition open_container :: "aead \<Rightarrow> path \<Rightarrow> path \<Rightarrow> world \<Rightarrow> error + (bytes \<times> bytes)" where
  "open_container A container_path key_path w =
     (case load_key key_path w of
        Inl e \<Rightarrow> Inl e
      | Inr key \<Rightarrow>
          (case AESGCM key of
             Inl e \<Rightarrow> Inl e
           | Inr aes \<Rightarrow>
               (case read_container container_path w of
                  Inl e \<Rightarrow> Inl e
                | Inr (nonce, ct) \<Rightarrow>
                    (case aes_decrypt A aes nonce ct of
                       Inl e \<Rightarrow> Inl e
                     | Inr plain \<Rightarrow> Inr (aes, plain)))))"

text \<open>The record \<open>[fname_len:2][fname][data_len:8][data]\<close>.\<close>

definition encode_record :: "bytes \<Rightarrow> bytes \<Rightarrow> error + bytes" where
  "encode_record fname data =
     (case to_bytes (length fname) 2 of
        Inl e \<Rightarrow> Inl e
      | Inr l2 \<Rightarrow>
          (case to_bytes (length data) 8 of
             Inl e \<Rightarrow> Inl e
           | Inr l8 \<Rightarrow> Inr (l2 @ fname @ l8 @ data)))"

text \<open>An upload is its file name and its content.\<close>

definition add_file_to_container ::
  "aead \<Rightarrow> (nat \<Rightarrow> nat \<Rightarrow> char) \<Rightarrow> nat option \<Rightarrow> path \<Rightarrow> path \<Rightarrow> string \<times> bytes \<Rightarrow> world
     \<Rightarrow> (error + unit) \<times> world" where
  "add_file_to_container A R fault container_path key_path uploaded w =
     (case open_container A container_path key_path w of
        Inl e \<Rightarrow> (Inl e, w)
      | Inr (aes, plain) \<Rightarrow>
          let data = snd uploaded;
              fname = path_name (mk_path (fst uploaded))
          in case encode_record fname data of
               Inl e \<Rightarrow> (Inl e, w)
             | Inr rec \<Rightarrow>
                 let new_plain = plain @ rec;
                     (new_nonce, w1) = token_bytes R 12 w
                 in case aes_encrypt A aes new_nonce new_plain of
                      Inl e \<Rightarrow> (Inl e, w1)
                    | Inr new_ct \<Rightarrow>
                        write_chunks fault container_path
                          [MAGIC, [char_of (length new_nonce)], new_nonce, new_ct] w1)"




text \<open>
  A run of \<open>add_file_to_container\<close> calls on one container, each free of I/O faults,
  stopping at the first error. (A call that succeeds under a fault parameter is a call
  whose fault did not strike, and has the effect of the fault-free call.)
\<close>

fun add_files ::
  "aead \<Rightarrow> (nat \<Rightarrow> nat \<Rightarrow> char) \<Rightarrow> path \<Rightarrow> path \<Rightarrow> (string \<times> bytes) list \<Rightarrow> world
     \<Rightarrow> (error + unit) \<times> world" where
  "add_files A R container_path key_path [] w = (Inr (), w)"
| "add_files A R container_path key_path (u # us) w =
     (case add_file_to_container A R None container_path key_path u w of
        (Inl e, w') \<Rightarrow> (Inl e, w')
      | (Inr x, w') \<Rightarrow> add_files A R container_path key_path us w')"

text \<open>The nonce and the ciphertext a container file carries, read as the source reads
  them.\<close>

definition container_parts :: "path \<Rightarrow> world \<Rightarrow> (bytes \<times> bytes) option" where
  "container_parts container_path w =
     (case read_container container_path w of
        Inl e \<Rightarrow> None
      | Inr (nonce, ct) \<Rightarrow> Some (nonce, ct))"

text \<open>
  The encryptions of one container's life, as nonce and ciphertext: what
  \<open>create_encrypted_container\<close> leaves in the file, then what each successful
  \<open>add_file_to_container\<close> leaves there, up to the first call that fails.
\<close>

fun add_trace ::
  "aead \<Rightarrow> (nat \<Rightarrow> nat \<Rightarrow> char) \<Rightarrow> path \<Rightarrow> path \<Rightarrow> (string \<times> bytes) list \<Rightarrow> world
     \<Rightarrow> (bytes \<times> bytes) option list" where
  "add_trace A R container_path key_path [] w = []"
| "add_trace A R container_path key_path (u # us) w =
     (case add_file_to_container A R None container_path key_path u w of
        (Inl e, w') \<Rightarrow> []
      | (Inr x, w') \<Rightarrow>
          container_parts container_path w' # add_trace A R container_path key_path us w')"

definition session_trace ::
  "aead \<Rightarrow> (nat \<Rightarrow> nat \<Rightarrow> char) \<Rightarrow> path \<Rightarrow> path \<Rightarrow> (string \<times> bytes) list \<Rightarrow> world
     \<Rightarrow> (bytes \<times> bytes) option list" where
  "session_trace A R container_path key_path us w =
     (case create_encrypted_container A R None container_path key_path w of
        (Inl e, w') \<Rightarrow> []
      | (Inr x, w') \<Rightarrow>
          container_parts container_path w' # add_trace A R container_path key_path us w')"

text \<open>
  The key of such a session and the number of the draw that gives its first nonce:
  \<open>create_encrypted_container\<close> loads the key when the key file exists, and otherwise
  generates it with the draw before the nonce's.
\<close>

definition session_key :: "(nat \<Rightarrow> nat \<Rightarrow> char) \<Rightarrow> path \<Rightarrow> world \<Rightarrow> bytes" where
  "session_key R key_path w =
     (if path_exists w key_path
      then (case load_key key_path w of Inl e \<Rightarrow> [] | Inr key \<Rightarrow> key)
      else draw R (rng_next w) 32)"

definition first_nonce :: "path \<Rightarrow> world \<Rightarrow> nat" where
  "first_nonce key_path w = (if path_exists w key_path then rng_next w else Suc (rng_next w))"

section \<open>Secure erase of a key file\<close>

text \<open>
  A file opened with \<open>"r+b"\<close> is its content and a position. A write replaces the
  bytes from the position on and extends the file if it runs past the end.
\<close>

definition pwrite :: "bytes \<Rightarrow> nat \<Rightarrow> bytes \<Rightarrow> bytes" where
  "pwrite content pos b =
     take pos content @ replicate (pos - length content) (CHR 0x00) @ b
       @ drop (pos + length b) content"

text \<open>\<open>f.flush(); os.fsync(f.fileno())\<close>: the content reaches the file and stable storage.\<close>

definition fsync :: "path \<Rightarrow> bytes \<Rightarrow> world \<Rightarrow> world" where
  "fsync p content w = (put_file p content w)\<lparr>synced := synced w @ [(p, content)]\<rparr>"

definition unlink :: "path \<Rightarrow> world \<Rightarrow> world" where
  "unlink p w = w\<lparr>fs := (fs w)(p := None)\<rparr>"

text \<open>The inner \<open>while rem > 0\<close> loop of a random pass.\<close>

function random_fill ::
  "(nat \<Rightarrow> nat \<Rightarrow> char) \<Rightarrow> nat \<Rightarrow> bytes \<Rightarrow> nat \<Rightarrow> world \<Rightarrow> bytes \<times> nat \<times> world" where
  "random_fill R rem content pos w =
     (if rem > 0 then
        (let chunk = min (1024 * 1024) rem;
             (b, w1) = token_bytes R chunk w
         in random_fill R (rem - chunk) (pwrite content pos b) (pos + length b) w1)
      else (content, pos, w))"
  by pat_completeness auto
termination
  by (relation "measure (\<lambda>(R, rem, content, pos, w). rem)") auto

declare random_fill.simps [simp del]

text \<open>\<open>for _ in range(passes)\<close>: seek to 0, fill, flush and fsync, \<open>n\<close> times.\<close>

fun random_passes ::
  "(nat \<Rightarrow> nat \<Rightarrow> char) \<Rightarrow> nat \<Rightarrow> nat \<Rightarrow> path \<Rightarrow> bytes \<Rightarrow> world \<Rightarrow> bytes \<times> world" where
  "random_passes R 0 sz p content w = (content, w)"
| "random_passes R (Suc n) sz p content w =
     (let (content1, pos, w1) = random_fill R sz content 0 w;
          w2 = fsync p content1 w1
      in random_passes R n sz p content1 w2)"

text \<open>The \<open>while rem > 0\<close> loop of the zero pass.\<close>

function zero_fill :: "nat \<Rightarrow> bytes \<Rightarrow> nat \<Rightarrow> bytes \<times> nat" where
  "zero_fill rem content pos =
     (if rem > 0 then
        (let chunk = min (1024 * 1024) rem;
             zero = replicate (1024 * 1024) (CHR 0x00)
         in zero_fill (rem - chunk) (pwrite content pos (take chunk zero)) (pos + chunk))
      else (content, pos))"
  by pat_completeness auto
termination
  by (relation "measure (\<lambda>(rem, content, pos). rem)") auto

declare zero_fill.simps [simp del]

text \<open>
  \<open>passes\<close> is a Python \<open>int\<close>; \<open>range(passes)\<close> has \<open>nat passes\<close> elements. The first
  \<open>with\<close> block is closed (and so flushed) before the second one reopens the file.
\<close>

definition secure_overwrite_and_delete ::
  "(nat \<Rightarrow> nat \<Rightarrow> char) \<Rightarrow> path \<Rightarrow> int \<Rightarrow> world \<Rightarrow> (error + unit) \<times> world" where
  "secure_overwrite_and_delete R p passes w =
     (if \<not> path_exists w p then (Inl FileNotFoundError, w)
      else case node_at w p of
             Some (File content) \<Rightarrow>
               (let sz = length content;
                    (content1, w1) = random_passes R (nat passes) sz p content w;
                    w2 = put_file p content1 w1;
                    (content2, pos) = zero_fill sz content1 0;
                    w3 = fsync p content2 w2
                in (Inr (), unlink p w3))
           | _ \<Rightarrow> (Inl IsADirectoryError, w))"

section \<open>Certificate serialisation and signing\<close>

text \<open>
  In this part a Python \<open>str\<close> is a list of code points below 256, one \<open>char\<close> each.
  \<open>json.dumps\<close> with its defaults (\<open>ensure_ascii\<close>, separators \<open>", "\<close> and \<open>": "\<close>)
  on a dictionary from strings to strings; the dictionary is the list of its items in
  insertion order. Its output is ASCII, so \<open>.encode("utf-8")\<close> leaves it as it is.
\<close>

definition hex_digit :: "nat \<Rightarrow> char" where
  "hex_digit n = (''0123456789abcdef'') ! (n mod 16)"

definition esc_char :: "char \<Rightarrow> string" where
  "esc_char c =
     (if c = CHR 0x22 then [CHR 0x5C, CHR 0x22]
      else if c = CHR 0x5C then [CHR 0x5C, CHR 0x5C]
      else if c = CHR 0x0A then [CHR 0x5C, CHR ''n'']
      else if c = CHR 0x0D then [CHR 0x5C, CHR ''r'']
      else if c = CHR 0x09 then [CHR 0x5C, CHR ''t'']
      else if c = CHR 0x08 then [CHR 0x5C, CHR ''b'']
      else if c = CHR 0x0C then [CHR 0x5C, CHR ''f'']
      else if 32 \<le> (of_char c :: nat) \<and> (of_char c :: nat) \<le> 126 then [c]
      else [CHR 0x5C, CHR ''u'', CHR ''0'', CHR ''0'',
            hex_digit (of_char c div 16), hex_digit (of_char c)])"

definition json_string :: "string \<Rightarrow> string" where
  "json_string s = [CHR 0x22] @ concat (map esc_char s) @ [CHR 0x22]"

text \<open>\<open>sep.join(xs)\<close>\<close>

fun join :: "string \<Rightarrow> string list \<Rightarrow> string" where
  "join sep [] = []"
| "join sep [x] = x"
| "join sep (x # y # ys) = x @ sep @ join sep (y # ys)"

definition json_item :: "string \<times> string \<Rightarrow> string" where
  "json_item kv = json_string (fst kv) @ '': '' @ json_string (snd kv)"

definition json_dumps :: "bool \<Rightarrow> (string \<times> string) list \<Rightarrow> string" where
  "json_dumps sort_keys d =
     ''{'' @ join '', '' (map json_item (if sort_keys then sort_key fst d else d)) @ ''}''"

text \<open>
  Loading the private key and \<open>priv.sign\<close> are one parameter of the environment: the
  bytes to sign go in, and either the signature or the message of the exception raised
  (key file unreadable, malformed key) comes out.
\<close>

definition sign_certificate :: "(bytes \<Rightarrow> string + bytes) \<Rightarrow> (string \<times> string) list \<Rightarrow> string + bytes" where
  "sign_certificate S payload = S (json_dumps True payload)"

section \<open>Destructive job engine\<close>

record job =
  job_id :: string
  os :: string
  target :: string
  action :: string
  status :: string
  log :: string
  success :: bool
  certificate :: "string option"

definition OSWipeJob :: "string \<Rightarrow> string \<Rightarrow> string \<Rightarrow> string \<Rightarrow> job" where
  "OSWipeJob i osname tgt act =
     \<lparr>job_id = i, os = osname, target = tgt, action = act, status = ''queued'',
      log = [], success = False, certificate = None\<rparr>"

text \<open>
  \<open>subprocess.check_output\<close> is called with an argument vector or, under
  \<open>shell=True\<close>, with a command line. It returns (exit status 0), raises
  CalledProcessError (another exit status) or raises something else (the tool is
  missing); the exceptions carry their message.
\<close>

datatype command = Argv "string list" | Shell string

datatype cmd_result = Exited0 | NonZeroExit string | Spawn_failed string

datatype exn = CalledProcessError string | Exception string

text \<open>
  A file-system operation of the engine (\<open>write_text\<close>, \<open>open\<close> and \<open>write\<close>,
  \<open>mkdir\<close>) can raise an OSError. Either nothing was changed (the file could not be
  opened: the directory is missing, permission is denied), or the file was opened, which
  truncates it, and the error struck after some bytes had been written (disk full).
  Both carry the message of the exception.
\<close>

datatype fault = Open_failed string | Write_failed string nat

fun fault_message :: "fault \<Rightarrow> string" where
  "fault_message (Open_failed m) = m"
| "fault_message (Write_failed m n) = m"

text \<open>
  The environment of a job: the clock (\<open>strftime k\<close> is the local time stamp read by
  the \<open>k\<close>-th log entry, \<open>gmtime_stamp\<close> the one of the certificate), the external
  tools, the signer, and the file system: \<open>io_fault k\<close> is the fault of the \<open>k\<close>-th
  file-system operation, \<open>None\<close> when it succeeds.
\<close>

record env =
  strftime :: "nat \<Rightarrow> string"
  gmtime_stamp :: string
  subprocess :: "command \<Rightarrow> cmd_result"
  signer :: "bytes \<Rightarrow> string + bytes"
  io_fault :: "nat \<Rightarrow> fault option"

text \<open>
  The state a worker acts on: the job object, the files written so far (log,
  certificate, signature), the number of clock readings and of file-system operations,
  the external commands invoked, every value the \<open>status\<close> attribute has held, oldest
  first, which is what status queries at arbitrary moments can observe, and the
  exception that left \<open>run\<close>, if one did.
\<close>

record exec =
  job :: job
  files :: "path \<Rightarrow> bytes option"
  clock :: nat
  io :: nat
  invoked :: "command list"
  observed :: "string list"
  escaped :: "exn option"

definition CERT_DIR :: path where
  "CERT_DIR = mk_path ''./certs''"

definition LOGS_DIR :: path where
  "LOGS_DIR = mk_path ''./logs''"

text \<open>\<open>str(p)\<close>\<close>

definition path_str :: "path \<Rightarrow> string" where
  "path_str p = (if parts p = [] \<and> root p = [] then ''.'' else root p @ join ''/'' (parts p))"

definition start :: "job \<Rightarrow> exec" where
  "start j = \<lparr>job = j, files = (\<lambda>p. None), clock = 0, io = 0, invoked = [],
              observed = [status j], escaped = None\<rparr>"

definition set_status :: "string \<Rightarrow> exec \<Rightarrow> exec" where
  "set_status v x = x\<lparr>job := (job x)\<lparr>status := v\<rparr>, observed := observed x @ [v]\<rparr>"

definition set_success :: "bool \<Rightarrow> exec \<Rightarrow> exec" where
  "set_success v x = x\<lparr>job := (job x)\<lparr>success := v\<rparr>\<rparr>"

text \<open>Statements in sequence: the second runs only when the first raised nothing.\<close>

definition and_then ::
  "exn option \<times> exec \<Rightarrow> (exec \<Rightarrow> exn option \<times> exec) \<Rightarrow> exn option \<times> exec" where
  "and_then r f = (case r of (Some e, x) \<Rightarrow> (Some e, x) | (None, x) \<Rightarrow> f x)"

text \<open>Writing a whole file (\<open>write_text\<close>, or \<open>open(.., "wb")\<close> and one \<open>write\<close>).\<close>

definition write_file :: "env \<Rightarrow> path \<Rightarrow> bytes \<Rightarrow> exec \<Rightarrow> exn option \<times> exec" where
  "write_file E p b x =
     (let x1 = x\<lparr>io := Suc (io x)\<rparr>
      in case io_fault E (io x) of
           None \<Rightarrow> (None, x1\<lparr>files := (files x)(p \<mapsto> b)\<rparr>)
         | Some (Open_failed m) \<Rightarrow> (Some (Exception m), x1)
         | Some (Write_failed m n) \<Rightarrow> (Some (Exception m), x1\<lparr>files := (files x)(p \<mapsto> take n b)\<rparr>))"

text \<open>\<open>CERT_DIR.mkdir(exist_ok=True)\<close>; directories are not part of \<open>files\<close>.\<close>

definition make_dir :: "env \<Rightarrow> exec \<Rightarrow> exn option \<times> exec" where
  "make_dir E x =
     (let x1 = x\<lparr>io := Suc (io x)\<rparr>
      in case io_fault E (io x) of
           None \<Rightarrow> (None, x1)
         | Some f \<Rightarrow> (Some (Exception (fault_message f)), x1))"

definition log_line :: "string \<Rightarrow> string \<Rightarrow> string" where
  "log_line t s = ''['' @ t @ ''] '' @ s @ [CHR 0x0A]"

text \<open>\<open>append_log\<close>: the \<open>log\<close> attribute is extended first, then the log file is
  rewritten, which can raise.\<close>

definition append_log :: "env \<Rightarrow> string \<Rightarrow> exec \<Rightarrow> exn option \<times> exec" where
  "append_log E s x =
     (let t = strftime E (clock x);
          lg = log (job x) @ log_line t s;
          x1 = x\<lparr>job := (job x)\<lparr>log := lg\<rparr>, clock := Suc (clock x)\<rparr>
      in write_file E (joinpath LOGS_DIR (job_id (job x) @ ''.log'')) lg x1)"

definition check_output :: "env \<Rightarrow> command \<Rightarrow> exec \<Rightarrow> exn option \<times> exec" where
  "check_output E c x =
     (let x1 = x\<lparr>invoked := invoked x @ [c]\<rparr>
      in case subprocess E c of
           Exited0 \<Rightarrow> (None, x1)
         | NonZeroExit m \<Rightarrow> (Some (CalledProcessError m), x1)
         | Spawn_failed m \<Rightarrow> (Some (Exception m), x1))"

text \<open>The dispatch on operating system and action; \<open>None\<close> when control falls through
  to the certificate step.\<close>

definition wipe_action :: "env \<Rightarrow> exec \<Rightarrow> exn option \<times> exec" where
  "wipe_action E x =
     (let j = job x in
      if os j = ''linux'' then
        (if action j = ''luks_killslot'' then
           (let cmd = [''cryptsetup'', ''luksKillSlot'', target j, ''0'']
            in and_then (append_log E (''Running: '' @ join '' '' cmd) x)
                 (check_output E (Argv cmd)))
         else if action j = ''zero_header'' then
           (let cmd = [''dd'', ''if=/dev/zero'', ''of='' @ target j, ''bs=1M'', ''count=128'']
            in and_then (append_log E (''Running: '' @ join '' '' cmd) x)
                 (check_output E (Shell (join '' '' cmd))))
         else (Some (Exception ''unknown action''), x))
      else if os j = ''windows'' then
        and_then
          (append_log E
             ''Windows destructive actions must be performed manually. See logs for guidance.'' x)
          (\<lambda>x1. (Some (Exception ''windows actions must be manual in this demo''), x1))
      else if os j = ''macos'' then
        and_then
          (append_log E
             ''macOS actions must be performed via fdesetup/diskutil GUI or manual commands'' x)
          (\<lambda>x1. (Some (Exception ''macos actions must be manual in demo''), x1))
      else (Some (Exception ''unsupported os''), x))"

definition certificate_record :: "job \<Rightarrow> string \<Rightarrow> (string \<times> string) list" where
  "certificate_record j stamp =
     [(''job_id'', job_id j), (''os'', os j), (''target'', target j), (''action'', action j),
      (''status'', ''success''), (''timestamp'', stamp)]"

text \<open>The rest of the \<open>try\<close> block: mark success, sign, write payload and signature.\<close>

definition certify :: "env \<Rightarrow> exec \<Rightarrow> exn option \<times> exec" where
  "certify E x =
     and_then (append_log E ''Wipe command completed successfully'' x) (\<lambda>x1.
       let x2 = set_success True x1;
           x3 = set_status ''finished'' x2;
           j = job x3;
           cert = certificate_record j (gmtime_stamp E)
       in case sign_certificate (signer E) cert of
            Inl m \<Rightarrow> (Some (Exception m), x3)
          | Inr sig \<Rightarrow>
              (let cert_path = joinpath CERT_DIR (job_id j @ ''.json'')
               in and_then (make_dir E x3) (\<lambda>x4.
                  and_then (write_file E cert_path (json_dumps False cert) x4) (\<lambda>x5.
                  and_then (write_file E (joinpath CERT_DIR (job_id j @ ''.sig'')) sig x5) (\<lambda>x6.
                  append_log E ''Certificate generated''
                    (x6\<lparr>job := (job x6)\<lparr>certificate := Some (path_str cert_path)\<rparr>\<rparr>))))))"

text \<open>The first log entry, with the job's parameters.\<close>

definition start_line :: "job \<Rightarrow> string" where
  "start_line j =
     ''Starting OS wipe job '' @ job_id j @ '' on '' @ os j @ '' target='' @ target j
       @ '' action='' @ action j"

text \<open>The body shared by the two \<open>except\<close> clauses: the log entry comes first, and when
  writing it raises, the exception leaves \<open>run\<close> before the status is assigned.\<close>

definition failed_after :: "env \<Rightarrow> string \<Rightarrow> exec \<Rightarrow> exec" where
  "failed_after E s x =
     (case append_log E s x of
        (Some e, x1) \<Rightarrow> x1\<lparr>escaped := Some e\<rparr>
      | (None, x1) \<Rightarrow> set_success False (set_status ''failed'' x1))"

text \<open>\<open>run\<close>: the first log entry is written outside the \<open>try\<close> block.\<close>

definition run :: "env \<Rightarrow> exec \<Rightarrow> exec" where
  "run E x =
     (let x1 = set_status ''running'' x
      in case append_log E (start_line (job x1)) x1 of
           (Some e, x2) \<Rightarrow> x2\<lparr>escaped := Some e\<rparr>
         | (None, x2) \<Rightarrow>
             (case and_then (wipe_action E x2) (certify E) of
                (None, x3) \<Rightarrow> x3
              | (Some (CalledProcessError m), x3) \<Rightarrow> failed_after E (''Command failed: '' @ m) x3
              | (Some (Exception m), x3) \<Rightarrow> failed_after E (''Exception: '' @ m) x3))"

text \<open>The effect of a log entry whose write succeeds.\<close>

definition logged :: "env \<Rightarrow> string \<Rightarrow> exec \<Rightarrow> exec" where
  "logged E s x =
     (let lg = log (job x) @ log_line (strftime E (clock x)) s
      in x\<lparr>job := (job x)\<lparr>log := lg\<rparr>,
           files := (files x)(joinpath LOGS_DIR (job_id (job x) @ ''.log'') \<mapsto> lg),
           clock := Suc (clock x), io := Suc (io x)\<rparr>)"

text \<open>The guidance entry and the exception message of the manual-only branches.\<close>

definition guidance :: "string \<Rightarrow> string" where
  "guidance osname =
     (if osname = ''windows''
      then ''Windows destructive actions must be performed manually. See logs for guidance.''
      else ''macOS actions must be performed via fdesetup/diskutil GUI or manual commands'')"

definition manual_message :: "string \<Rightarrow> string" where
  "manual_message osname =
     (if osname = ''windows'' then ''windows actions must be manual in this demo''
      else ''macos actions must be manual in demo'')"

text \<open>
  Two concrete environments for evaluating the engine: every tool exits with status 0
  and no file-system operation fails; in the first the signer raises (the private key file is gone), in the second it
  returns a signature that spells out the bytes it was given.
\<close>

definition env_unsigned :: env where
  "env_unsigned =
     \<lparr>strftime = (\<lambda>k. ''T''), gmtime_stamp = ''Z'', subprocess = (\<lambda>c. Exited0),
      signer = (\<lambda>d. Inl ''No such file or directory''), io_fault = (\<lambda>k. None)\<rparr>"

definition env_signed :: env where
  "env_signed =
     \<lparr>strftime = (\<lambda>k. ''T''), gmtime_stamp = ''Z'', subprocess = (\<lambda>c. Exited0),
      signer = (\<lambda>d. Inr (''signature over '' @ d)), io_fault = (\<lambda>k. None)\<rparr>"

text \<open>
  Names for the states a \<open>zero_header\<close> job passes through when no write fails: after the external
  command has been logged and invoked, and after the engine has marked the job finished.
\<close>

definition demo_job :: job where
  "demo_job = OSWipeJob ''j1'' ''linux'' ''/dev/sdx'' ''zero_header''"

definition dd_command :: "string \<Rightarrow> command" where
  "dd_command tgt = Shell (join '' '' [''dd'', ''if=/dev/zero'', ''of='' @ tgt, ''bs=1M'', ''count=128''])"

definition marked_finished :: "env \<Rightarrow> exec \<Rightarrow> exec" where
  "marked_finished E x =
     set_status ''finished'' (set_success True
       (logged E ''Wipe command completed successfully'' x))"

definition dd_started :: "env \<Rightarrow> exec \<Rightarrow> exec" where
  "dd_started E x =
     (let x2 = logged E (start_line (job x)) (set_status ''running'' x)
      in (logged E (''Running: '' @ join '' ''
               [''dd'', ''if=/dev/zero'', ''of='' @ target (job x), ''bs=1M'', ''count=128'']) x2)
            \<lparr>invoked := invoked x @ [dd_command (target (job x))]\<rparr>)"

text \<open>
  What one random pass writes over a file of \<open>rem\<close> bytes when its first draw is draw
  \<open>k\<close>: the draws of the chunks, one after the other. \<open>n_chunks n\<close> is how many draws
  a pass over \<open>n\<close> bytes makes.
\<close>

function fill_bytes :: "(nat \<Rightarrow> nat \<Rightarrow> char) \<Rightarrow> nat \<Rightarrow> nat \<Rightarrow> bytes" where
  "fill_bytes R k rem =
     (if rem > 0 then draw R k (min (1024 * 1024) rem)
                        @ fill_bytes R (Suc k) (rem - min (1024 * 1024) rem)
      else [])"
  by pat_completeness auto
termination
  by (relation "measure (\<lambda>(R, k, rem). rem)") auto

declare fill_bytes.simps [simp del]

definition n_chunks :: "nat \<Rightarrow> nat" where
  "n_chunks n = (n + (1024 * 1024 - 1)) div (1024 * 1024)"

text \<open>The contents synced by \<open>P\<close> random passes over \<open>n\<close> bytes, the first draw being \<open>k\<close>.\<close>

definition pass_snapshots :: "(nat \<Rightarrow> nat \<Rightarrow> char) \<Rightarrow> path \<Rightarrow> nat \<Rightarrow> nat \<Rightarrow> nat \<Rightarrow> (path \<times> bytes) list" where
  "pass_snapshots R p k n P = map (\<lambda>i. (p, fill_bytes R (k + i * n_chunks n) n)) [0..<P]"

text \<open>A random source and a key store for evaluating the erase on a concrete file.\<close>

definition demo_rand :: "nat \<Rightarrow> nat \<Rightarrow> char" where
  "demo_rand k i = char_of (k + i)"

definition key_world :: world where
  "key_world = \<lparr>fs = (\<lambda>p. None)(Path [] [''keys'', ''k1''] \<mapsto> File ''abc''), rng_next = 0, synced = []\<rparr>"




text \<open>The name \<open>add_file_to_container\<close> stores for an upload: the final path segment.\<close>

definition stored_name :: "string \<Rightarrow> bytes" where
  "stored_name filename = path_name (mk_path filename)"

text \<open>The bytes of one record, and of a list of records.\<close>

definition rec_bytes :: "bytes \<Rightarrow> bytes \<Rightarrow> bytes" where
  "rec_bytes fname data = be_digits 2 (length fname) @ fname @ be_digits 8 (length data) @ data"



definition enc_all :: "(bytes \<times> bytes) list \<Rightarrow> bytes" where
  "enc_all rs = concat (map (\<lambda>(f, d). rec_bytes f d) rs)"


text \<open>The records a list of uploads leaves in the container: each upload under its
  stored name.\<close>

definition stored :: "(string \<times> bytes) list \<Rightarrow> (bytes \<times> bytes) list" where
  "stored pairs = map (\<lambda>(name, content). (stored_name name, content)) pairs"



text \<open>
  A cipher, a world and paths for evaluating the codec on concrete inputs. The cipher
  appends a fixed 16-byte tag and checks it on decryption; \<open>created\<close> is the world
  after a container and its key have been created in the empty world.
\<close>

definition demo_aead :: aead where
  "demo_aead =
     \<lparr>encrypt = (\<lambda>k n p. p @ replicate 16 (CHR ''t'')),
      decrypt = (\<lambda>k n c. if 16 \<le> length c \<and> drop (length c - 16) c = replicate 16 (CHR ''t'')
                          then Some (take (length c - 16) c) else None)\<rparr>"

definition empty_world :: world where
  "empty_world = \<lparr>fs = (\<lambda>p. None), rng_next = 0, synced = []\<rparr>"

definition demo_container :: path where
  "demo_container = Path [] [''containers'', ''c1'']"

definition demo_key :: path where
  "demo_key = Path [] [''keys'', ''k1'']"

definition demo_outdir :: path where
  "demo_outdir = Path [] [''out'']"

definition created :: world where
  "created =
     snd (create_encrypted_container demo_aead demo_rand None demo_container demo_key empty_world)"



section \<open>Properties of the job engine\<close>

lemma logged_sel [simp]:
  "job (logged E s x) = (job x)\<lparr>log := log (job x) @ log_line (strftime E (clock x)) s\<rparr>"
  "clock (logged E s x) = Suc (clock x)"
  "io (logged E s x) = Suc (io x)"
  "invoked (logged E s x) = invoked x"
  "observed (logged E s x) = observed x"
  "escaped (logged E s x) = escaped x"
  "files (logged E s x) =
     (files x)(joinpath LOGS_DIR (job_id (job x) @ ''.log'') \<mapsto>
        log (job x) @ log_line (strftime E (clock x)) s)"
  by (simp_all add: logged_def Let_def)

lemma set_status_sel [simp]:
  "job (set_status v x) = (job x)\<lparr>status := v\<rparr>"
  "clock (set_status v x) = clock x"
  "io (set_status v x) = io x"
  "invoked (set_status v x) = invoked x"
  "observed (set_status v x) = observed x @ [v]"
  "escaped (set_status v x) = escaped x"
  "files (set_status v x) = files x"
  by (simp_all add: set_status_def)

lemma set_success_sel [simp]:
  "job (set_success v x) = (job x)\<lparr>success := v\<rparr>"
  "clock (set_success v x) = clock x"
  "io (set_success v x) = io x"
  "invoked (set_success v x) = invoked x"
  "observed (set_success v x) = observed x"
  "escaped (set_success v x) = escaped x"
  "files (set_success v x) = files x"
  by (simp_all add: set_success_def)

lemma start_line_status [simp]: "start_line (j\<lparr>status := v\<rparr>) = start_line j"
  by (simp add: start_line_def)

lemma append_log_ok: "io_fault E (io x) = None \<Longrightarrow> append_log E s x = (None, logged E s x)"
  by (simp add: append_log_def write_file_def logged_def Let_def)

lemma write_file_ok:
  "io_fault E (io x) = None \<Longrightarrow>
   write_file E p b x = (None, x\<lparr>io := Suc (io x), files := (files x)(p \<mapsto> b)\<rparr>)"
  by (simp add: write_file_def Let_def)

lemma make_dir_ok: "io_fault E (io x) = None \<Longrightarrow> make_dir E x = (None, x\<lparr>io := Suc (io x)\<rparr>)"
  by (simp add: make_dir_def Let_def)

lemma and_then_simps [simp]:
  "and_then (None, x) f = f x"
  "and_then (Some e, x) f = (Some e, x)"
  by (simp_all add: and_then_def)

lemma append_log_invoked: "invoked (snd (append_log E s x)) = invoked x"
  by (simp add: append_log_def write_file_def Let_def split: option.splits fault.splits)

lemma append_log_log:
  "log (job (snd (append_log E s x))) = log (job x) @ log_line (strftime E (clock x)) s"
  by (simp add: append_log_def write_file_def Let_def split: option.splits fault.splits)

lemma failed_after_invoked: "invoked (failed_after E s x) = invoked x"
  using append_log_invoked [of E s x]
  by (cases "append_log E s x") (auto simp: failed_after_def split: option.splits)

lemma wipe_action_manual:
  assumes "os (job x) = ''windows'' \<or> os (job x) = ''macos''"
  shows "wipe_action E x =
           and_then (append_log E (guidance (os (job x))) x)
             (\<lambda>x1. (Some (Exception (manual_message (os (job x)))), x1))"
  using assms by (auto simp: wipe_action_def guidance_def manual_message_def Let_def)

lemma run_manual_invoked:
  assumes "os (job x) = ''windows'' \<or> os (job x) = ''macos''"
  shows "invoked (run E x) = invoked x"
proof -
  let ?x1 = "set_status ''running'' x"
  obtain r2 x2 where a: "append_log E (start_line (job x)) ?x1 = (r2, x2)"
    by (cases "append_log E (start_line (job x)) ?x1")
  have i2: "invoked x2 = invoked x"
    using append_log_invoked [of E "start_line (job x)" ?x1] by (simp add: a)
  have o2: "os (job x2) = os (job x)"
    using a by (auto simp: append_log_def write_file_def Let_def split: option.splits fault.splits)
  show ?thesis
  proof (cases r2)
    case (Some e)
    then show ?thesis by (simp add: run_def Let_def a i2)
  next
    case None
    obtain r3 x3 where b: "append_log E (guidance (os (job x))) x2 = (r3, x3)"
      by (cases "append_log E (guidance (os (job x))) x2")
    have i3: "invoked x3 = invoked x"
      using append_log_invoked [of E "guidance (os (job x))" x2] by (simp add: b i2)
    have w: "wipe_action E x2 =
        and_then (r3, x3) (\<lambda>x1. (Some (Exception (manual_message (os (job x)))), x1))"
      using wipe_action_manual [of x2 E] assms by (simp add: o2 b)
    obtain e where "and_then (wipe_action E x2) (certify E) = (Some e, x3)"
      unfolding w by (cases r3) simp_all
    then show ?thesis
      by (cases e) (simp_all add: run_def Let_def a None failed_after_invoked i3)
  qed
qed

lemma run_manual:
  assumes "os (job x) = ''windows'' \<or> os (job x) = ''macos''"
    and "io_fault E (io x) = None" "io_fault E (io x + 1) = None" "io_fault E (io x + 2) = None"
  shows "run E x =
     set_success False (set_status ''failed''
       (logged E (''Exception: '' @ manual_message (os (job x)))
         (logged E (guidance (os (job x)))
           (logged E (start_line (job x)) (set_status ''running'' x)))))"
proof -
  let ?x1 = "set_status ''running'' x"
  let ?x2 = "logged E (start_line (job x)) ?x1"
  let ?x3 = "logged E (guidance (os (job x))) ?x2"
  have a: "append_log E (start_line (job x)) ?x1 = (None, ?x2)"
    using assms(2) by (simp add: append_log_ok)
  have b: "append_log E (guidance (os (job x))) ?x2 = (None, ?x3)"
    using assms(3) by (simp add: append_log_ok)
  have w: "wipe_action E ?x2 = (Some (Exception (manual_message (os (job x)))), ?x3)"
    using wipe_action_manual [of ?x2 E] assms(1) by (simp add: b)
  show ?thesis
    using assms(4) by (simp add: run_def Let_def a w failed_after_def append_log_ok)
qed

text \<open>
  Claim C9. A job whose operating system is \<open>windows\<close> or \<open>macos\<close>, whatever its
  action: the run invokes no external command, whatever happens to the log file. When
  the three writes of the log file succeed, the run appends to the log the start entry,
  the manual-action guidance entry and the entry of the exception, leaves that log in
  the log file, and ends with status \<open>failed\<close>, no success, no certificate and no
  exception leaving \<open>run\<close>. (When a write of the log file raises, the exception can
  leave \<open>run\<close> with the status still \<open>running\<close>.)
\<close>

theorem manual_only:
  assumes "os (job x) = ''windows'' \<or> os (job x) = ''macos''"
  shows "invoked (run E x) = invoked x
       \<and> (io_fault E (io x) = None \<and> io_fault E (io x + 1) = None \<and> io_fault E (io x + 2) = None
          \<longrightarrow> status (job (run E x)) = ''failed''
            \<and> success (job (run E x)) = False
            \<and> certificate (job (run E x)) = certificate (job x)
            \<and> escaped (run E x) = escaped x
            \<and> observed (run E x) = observed x @ [''running'', ''failed'']
            \<and> log (job (run E x)) =
                log (job x)
                @ ''['' @ strftime E (clock x) @ ''] Starting OS wipe job '' @ job_id (job x)
                @ '' on '' @ os (job x) @ '' target='' @ target (job x)
                @ '' action='' @ action (job x) @ [CHR 0x0A]
                @ ''['' @ strftime E (clock x + 1) @ ''] ''
                @ (if os (job x) = ''windows''
                   then ''Windows destructive actions must be performed manually. See logs for guidance.''
                   else ''macOS actions must be performed via fdesetup/diskutil GUI or manual commands'')
                @ [CHR 0x0A]
                @ ''['' @ strftime E (clock x + 2) @ ''] Exception: ''
                @ (if os (job x) = ''windows'' then ''windows actions must be manual in this demo''
                   else ''macos actions must be manual in demo'')
                @ [CHR 0x0A]
            \<and> files (run E x) (joinpath LOGS_DIR (job_id (job x) @ ''.log''))
                = Some (log (job (run E x))))"
proof (intro conjI impI)
  show "invoked (run E x) = invoked x"
    by (rule run_manual_invoked [OF assms])
next
  assume f: "io_fault E (io x) = None \<and> io_fault E (io x + 1) = None \<and> io_fault E (io x + 2) = None"
  note r = run_manual [OF assms, of E]
  from f show "status (job (run E x)) = ''failed''" by (simp add: r)
  from f show "success (job (run E x)) = False" by (simp add: r)
  from f show "certificate (job (run E x)) = certificate (job x)" by (simp add: r)
  from f show "escaped (run E x) = escaped x" by (simp add: r)
  from f show "observed (run E x) = observed x @ [''running'', ''failed'']" by (simp add: r)
  from f show "log (job (run E x)) =
                log (job x)
                @ ''['' @ strftime E (clock x) @ ''] Starting OS wipe job '' @ job_id (job x)
                @ '' on '' @ os (job x) @ '' target='' @ target (job x)
                @ '' action='' @ action (job x) @ [CHR 0x0A]
                @ ''['' @ strftime E (clock x + 1) @ ''] ''
                @ (if os (job x) = ''windows''
                   then ''Windows destructive actions must be performed manually. See logs for guidance.''
                   else ''macOS actions must be performed via fdesetup/diskutil GUI or manual commands'')
                @ [CHR 0x0A]
                @ ''['' @ strftime E (clock x + 2) @ ''] Exception: ''
                @ (if os (job x) = ''windows'' then ''windows actions must be manual in this demo''
                   else ''macos actions must be manual in demo'')
                @ [CHR 0x0A]"
    by (simp add: r log_line_def start_line_def guidance_def manual_message_def)
  from f show "files (run E x) (joinpath LOGS_DIR (job_id (job x) @ ''.log''))
                = Some (log (job (run E x)))"
    by (simp add: r)
qed

theorem manual_only_witness:
  "(os (job (start (OSWipeJob ''j1'' ''windows'' ''C:'' ''remove_bitlocker_protector''))) = ''windows''
    \<or> os (job (start (OSWipeJob ''j1'' ''windows'' ''C:'' ''remove_bitlocker_protector''))) = ''macos'')
   \<and> io_fault env_signed 0 = None \<and> io_fault env_signed 1 = None \<and> io_fault env_signed 2 = None
   \<and> invoked (run env_signed (start (OSWipeJob ''j1'' ''windows'' ''C:'' ''remove_bitlocker_protector''))) = []
   \<and> status (job (run env_signed (start (OSWipeJob ''j1'' ''windows'' ''C:'' ''remove_bitlocker_protector'')))) = ''failed''
   \<and> log (job (run env_signed (start (OSWipeJob ''j1'' ''windows'' ''C:'' ''remove_bitlocker_protector'')))) =
       ''[T] Starting OS wipe job j1 on windows target=C: action=remove_bitlocker_protector'' @ [CHR 0x0A]
       @ ''[T] Windows destructive actions must be performed manually. See logs for guidance.'' @ [CHR 0x0A]
       @ ''[T] Exception: windows actions must be manual in this demo'' @ [CHR 0x0A]
   \<and> files (run env_signed (start (OSWipeJob ''j1'' ''windows'' ''C:'' ''remove_bitlocker_protector'')))
         (joinpath LOGS_DIR ''j1.log'') =
       Some (''[T] Starting OS wipe job j1 on windows target=C: action=remove_bitlocker_protector'' @ [CHR 0x0A]
       @ ''[T] Windows destructive actions must be performed manually. See logs for guidance.'' @ [CHR 0x0A]
       @ ''[T] Exception: windows actions must be manual in this demo'' @ [CHR 0x0A])"
  using manual_only [of "start (OSWipeJob ''j1'' ''windows'' ''C:'' ''remove_bitlocker_protector'')" env_signed]
  by (simp add: start_def OSWipeJob_def env_signed_def)

lemma run_first_write_fails:
  assumes "io_fault E (io x) = Some f"
  shows "status (job (run E x)) = ''running''"
    and "escaped (run E x) = Some (Exception (fault_message f))"
    and "invoked (run E x) = invoked x"
  using assms
  by (cases f; simp add: run_def append_log_def write_file_def Let_def)+

lemma wipe_action_zero_header:
  assumes "os (job x) = ''linux''" "action (job x) = ''zero_header''"
    and "subprocess E (dd_command (target (job x))) = Exited0"
    and "io_fault E (io x) = None"
  shows "wipe_action E x =
     (None, (logged E (''Running: '' @ join '' ''
               [''dd'', ''if=/dev/zero'', ''of='' @ target (job x), ''bs=1M'', ''count=128'']) x)
            \<lparr>invoked := invoked x @ [dd_command (target (job x))]\<rparr>)"
  using assms(3) unfolding wipe_action_def Let_def assms(1,2) dd_command_def
  by (simp add: check_output_def append_log_ok [OF assms(4)] Let_def)

lemma certificate_record_upd [simp]:
  "certificate_record (j\<lparr>log := l\<rparr>) t = certificate_record j t"
  "certificate_record (j\<lparr>status := v\<rparr>) t = certificate_record j t"
  "certificate_record (j\<lparr>success := b\<rparr>) t = certificate_record j t"
  by (simp_all add: certificate_record_def)

lemma certify_unsigned:
  assumes "signer E (json_dumps True (certificate_record (job x) (gmtime_stamp E))) = Inl m"
    and "io_fault E (io x) = None"
  shows "certify E x = (Some (Exception m), marked_finished E x)"
  using assms(1)
  by (simp add: certify_def append_log_ok [OF assms(2)] sign_certificate_def
        marked_finished_def Let_def)

lemma certify_signed:
  assumes "signer E (json_dumps True (certificate_record (job x) (gmtime_stamp E))) = Inr sg"
    and "\<And>k. io_fault E k = None"
  shows "certify E x =
     (None, logged E ''Certificate generated''
        ((marked_finished E x)
          \<lparr>io := io x + 4,
           files := (files (marked_finished E x))
              (joinpath CERT_DIR (job_id (job x) @ ''.json'') \<mapsto>
                 json_dumps False (certificate_record (job x) (gmtime_stamp E)),
               joinpath CERT_DIR (job_id (job x) @ ''.sig'') \<mapsto> sg),
           job := (job (marked_finished E x))
              \<lparr>certificate := Some (path_str (joinpath CERT_DIR (job_id (job x) @ ''.json'')))\<rparr>\<rparr>))"
  using assms(1)
  by (simp add: certify_def append_log_ok make_dir_ok write_file_ok assms(2)
        sign_certificate_def marked_finished_def Let_def)

lemma dd_started_sel [simp]:
  "job_id (job (dd_started E x)) = job_id (job x)"
  "os (job (dd_started E x)) = os (job x)"
  "target (job (dd_started E x)) = target (job x)"
  "action (job (dd_started E x)) = action (job x)"
  "invoked (dd_started E x) = invoked x @ [dd_command (target (job x))]"
  "observed (dd_started E x) = observed x @ [''running'']"
  "io (dd_started E x) = io x + 2"
  "certificate_record (job (dd_started E x)) t = certificate_record (job x) t"
  by (simp_all add: dd_started_def Let_def certificate_record_def)

lemma run_zero_header:
  assumes "os (job x) = ''linux''" "action (job x) = ''zero_header''"
    and "subprocess E (dd_command (target (job x))) = Exited0"
    and "io_fault E (io x) = None" "io_fault E (io x + 1) = None"
  shows "run E x =
     (case certify E (dd_started E x) of
        (None, x3) \<Rightarrow> x3
      | (Some (CalledProcessError m), x3) \<Rightarrow> failed_after E (''Command failed: '' @ m) x3
      | (Some (Exception m), x3) \<Rightarrow> failed_after E (''Exception: '' @ m) x3)"
proof -
  let ?x1 = "set_status ''running'' x"
  let ?x2 = "logged E (start_line (job x)) ?x1"
  have a: "append_log E (start_line (job x)) ?x1 = (None, ?x2)"
    using assms(4) by (simp add: append_log_ok)
  have "wipe_action E ?x2 = (None, dd_started E x)"
    using wipe_action_zero_header [of ?x2 E] assms by (simp add: dd_started_def Let_def)
  then show ?thesis
    by (simp add: run_def Let_def a)
qed

lemma run_signing_fails:
  assumes "os (job x) = ''linux''" "action (job x) = ''zero_header''"
    and "subprocess E (dd_command (target (job x))) = Exited0"
    and "signer E (json_dumps True (certificate_record (job x) (gmtime_stamp E))) = Inl m"
    and "\<And>k. io_fault E k = None"
  shows "run E x =
     set_success False (set_status ''failed''
       (logged E (''Exception: '' @ m) (marked_finished E (dd_started E x))))"
  unfolding run_zero_header [OF assms(1-3) assms(5) assms(5)]
  using assms(4) by (simp add: certify_unsigned assms(5) failed_after_def append_log_ok)

lemma signing_fails_outcome:
  assumes "os (job x) = ''linux''" "action (job x) = ''zero_header''"
    and "subprocess E (dd_command (target (job x))) = Exited0"
    and "signer E (json_dumps True (certificate_record (job x) (gmtime_stamp E))) = Inl m"
    and "\<And>k. io_fault E k = None"
  shows "invoked (run E x) = invoked x @ [dd_command (target (job x))]"
    and "status (job (run E x)) = ''failed''"
    and "success (job (run E x)) = False"
    and "observed (run E x) = observed x @ [''running'', ''finished'', ''failed'']"
  unfolding run_signing_fails [OF assms] by (simp_all add: marked_finished_def)

lemma run_signed:
  assumes "os (job x) = ''linux''" "action (job x) = ''zero_header''"
    and "subprocess E (dd_command (target (job x))) = Exited0"
    and "signer E (json_dumps True (certificate_record (job x) (gmtime_stamp E))) = Inr sg"
    and "\<And>k. io_fault E k = None"
  shows "status (job (run E x)) = ''finished''"
    and "success (job (run E x)) = True"
    and "observed (run E x) = observed x @ [''running'', ''finished'']"
  unfolding run_zero_header [OF assms(1-3) assms(5) assms(5)]
  using assms(4) by (simp_all add: certify_signed assms(5) marked_finished_def)

lemma run_signed_files:
  assumes "os (job x) = ''linux''" "action (job x) = ''zero_header''"
    and "subprocess E (dd_command (target (job x))) = Exited0"
    and "signer E (json_dumps True (certificate_record (job x) (gmtime_stamp E))) = Inr sg"
    and "joinpath LOGS_DIR (job_id (job x) @ ''.log'') \<noteq> joinpath CERT_DIR (job_id (job x) @ ''.json'')"
    and "joinpath LOGS_DIR (job_id (job x) @ ''.log'') \<noteq> joinpath CERT_DIR (job_id (job x) @ ''.sig'')"
    and "joinpath CERT_DIR (job_id (job x) @ ''.json'') \<noteq> joinpath CERT_DIR (job_id (job x) @ ''.sig'')"
    and "\<And>k. io_fault E k = None"
  shows "files (run E x) (joinpath CERT_DIR (job_id (job x) @ ''.json'')) =
           Some (json_dumps False (certificate_record (job x) (gmtime_stamp E)))"
    and "files (run E x) (joinpath CERT_DIR (job_id (job x) @ ''.sig'')) = Some sg"
  unfolding run_zero_header [OF assms(1-3) assms(8) assms(8)]
  using assms(4-7) by (simp_all add: certify_signed assms(8) marked_finished_def)

lemma demo_paths:
  "joinpath LOGS_DIR (''j1'' @ ''.log'') = Path [] [''logs'', ''j1.log'']"
  "joinpath CERT_DIR (''j1'' @ ''.json'') = Path [] [''certs'', ''j1.json'']"
  "joinpath CERT_DIR (''j1'' @ ''.sig'') = Path [] [''certs'', ''j1.sig'']"
  by code_simp+

lemma demo_payload:
  \<open>json_dumps False (certificate_record demo_job ''Z'') =
    ''{"job_id": "j1", "os": "linux", "target": "/dev/sdx", "action": "zero_header", "status": "success", "timestamp": "Z"}''\<close>
  by code_simp

lemma demo_signed_bytes:
  \<open>json_dumps True (certificate_record demo_job ''Z'') =
    ''{"action": "zero_header", "job_id": "j1", "os": "linux", "status": "success", "target": "/dev/sdx", "timestamp": "Z"}''\<close>
  by code_simp

text \<open>
  Claim C3 (second half), evaluated on a successful \<open>zero_header\<close> job with a signer
  that spells out the bytes it was given: the payload file holds the record in
  insertion order, the signature was made over the record in sorted key order, so the
  payload file is not the byte sequence that was signed.
\<close>

theorem payload_file_is_not_the_signed_bytes:
  \<open>files (run env_signed (start demo_job)) (Path [] [''certs'', ''j1.json'']) =
     Some ''{"job_id": "j1", "os": "linux", "target": "/dev/sdx", "action": "zero_header", "status": "success", "timestamp": "Z"}''
   \<and> files (run env_signed (start demo_job)) (Path [] [''certs'', ''j1.sig'']) =
     Some (''signature over '' @
       ''{"action": "zero_header", "job_id": "j1", "os": "linux", "status": "success", "target": "/dev/sdx", "timestamp": "Z"}'')\<close>
proof -
  let ?x = "start demo_job"
  have j: "job ?x = demo_job" by (simp add: start_def)
  have f: "job_id demo_job = ''j1''" "os demo_job = ''linux''" "action demo_job = ''zero_header''"
    by (simp_all add: demo_job_def OSWipeJob_def)
  have e: "subprocess env_signed c = Exited0" "gmtime_stamp env_signed = ''Z''"
    "signer env_signed d = Inr (''signature over '' @ d)" "io_fault env_signed k = None" for c d k
    by (simp_all add: env_signed_def)
  have "files (run env_signed ?x) (joinpath CERT_DIR (job_id (job ?x) @ ''.json'')) =
          Some (json_dumps False (certificate_record (job ?x) (gmtime_stamp env_signed)))"
    by (rule run_signed_files(1) [where sg = "''signature over '' @ json_dumps True (certificate_record demo_job ''Z'')"])
       (simp_all only: j f e demo_paths, simp_all)
  moreover have "files (run env_signed ?x) (joinpath CERT_DIR (job_id (job ?x) @ ''.sig'')) =
          Some (''signature over '' @ json_dumps True (certificate_record demo_job ''Z''))"
    by (rule run_signed_files(2))
       (simp_all only: j f e demo_paths, simp_all)
  ultimately show ?thesis
    by (simp only: j f e demo_paths demo_payload demo_signed_bytes) 
qed

text \<open>
  Claim C1, evaluated on a \<open>zero_header\<close> job whose \<open>dd\<close> command exits with status 0
  and whose signing step raises: the command was invoked, and the job ends as a plain
  \<open>failed\<close> job with \<open>success = False\<close>.
\<close>

theorem signing_failure_reported_as_failed:
  "subprocess env_unsigned (Shell ''dd if=/dev/zero of=/dev/sdx bs=1M count=128'') = Exited0
   \<and> invoked (run env_unsigned (start demo_job)) = [Shell ''dd if=/dev/zero of=/dev/sdx bs=1M count=128'']
   \<and> status (job (run env_unsigned (start demo_job))) = ''failed''
   \<and> success (job (run env_unsigned (start demo_job))) = False"
  by code_simp

text \<open>
  Claim C6, evaluated on the same job: the status attribute holds \<open>finished\<close>, a
  terminal value, and is then overwritten with \<open>failed\<close>.
\<close>

theorem finished_then_failed:
  "observed (run env_unsigned (start demo_job)) = [''queued'', ''running'', ''finished'', ''failed'']"
  by code_simp

text \<open>
  Claim C3 (first half): \<open>sign_certificate\<close> signs the serialisation with sorted keys,
  so two dictionaries with the same items sign the same bytes whatever their insertion
  order; and for every job the payload written to the file differs from those bytes.
\<close>

lemma json_dumps_order_independent:
  assumes "distinct (map fst p)" "distinct (map fst q)" "set p = set q"
  shows "json_dumps True p = json_dumps True q"
proof -
  let ?xs = "sort_key fst p" and ?ys = "sort_key fst q"
  have "map fst ?xs = map fst ?ys"
  proof (rule sorted_distinct_set_unique)
    show "sorted (map fst ?xs)" "sorted (map fst ?ys)" by simp_all
    show "distinct (map fst ?xs)" using assms(1) by (simp add: distinct_map)
    show "distinct (map fst ?ys)" using assms(2) by (simp add: distinct_map)
    show "set (map fst ?xs) = set (map fst ?ys)" using assms(3) by simp
  qed
  moreover have "inj_on fst (set ?xs \<union> set ?ys)"
    using assms by (simp add: distinct_map)
  ultimately have "?xs = ?ys" by (simp add: inj_on_map_eq_map)
  then show ?thesis by (simp add: json_dumps_def)
qed

lemma sign_certificate_order_independent:
  assumes "distinct (map fst p)" "distinct (map fst q)" "set p = set q"
  shows "sign_certificate S p = sign_certificate S q"
  by (simp add: sign_certificate_def json_dumps_order_independent [OF assms])

lemma sort_certificate_record:
  "sort_key fst (certificate_record j stamp) =
     [(''action'', action j), (''job_id'', job_id j), (''os'', os j),
      (''status'', ''success''), (''target'', target j), (''timestamp'', stamp)]"
  by (simp add: certificate_record_def)

lemma json_string_Cons: "json_string s = CHR 0x22 # concat (map esc_char s) @ [CHR 0x22]"
  by (simp add: json_string_def)

lemma payload_not_signed_bytes:
  "json_dumps False (certificate_record j stamp) \<noteq> json_dumps True (certificate_record j stamp)"
proof -
  have a: "json_dumps True (certificate_record j stamp) ! 2 = CHR ''a''"
    unfolding json_dumps_def if_True sort_certificate_record
    by (simp add: json_item_def json_string_Cons esc_char_def)
  have b: "json_dumps False (certificate_record j stamp) ! 2 = CHR ''j''"
    unfolding json_dumps_def if_False certificate_record_def
    by (simp add: json_item_def json_string_Cons esc_char_def)
  show ?thesis using a b by auto
qed

section \<open>Properties of the file system\<close>

lemma rev_parts_plain:
  assumes "plain_path p"
  obtains cs where "rev (parts p) = last (parts p) # cs" "last (parts p) \<noteq> ''..''"
proof -
  from assms have ne: "parts p \<noteq> []" and l: "last (parts p) \<noteq> ''..''"
    by (simp_all add: plain_path_def)
  from ne have r: "rev (parts p) = last (parts p) # rev (butlast (parts p))"
    by (metis append_butlast_last_id rev.simps(2) rev_append rev_rev_ident append_Nil rev.simps(1) append_Cons)
  show ?thesis by (rule that [OF r l])
qed

lemma node_at_plain: "plain_path p \<Longrightarrow> node_at w p = fs w p"
proof -
  assume pl: "plain_path p"
  then obtain cs where r: "rev (parts p) = last (parts p) # cs" and l: "last (parts p) \<noteq> ''..''"
    by (rule rev_parts_plain)
  have "rev (last (parts p) # cs) = parts p"
    using r by (metis rev_rev_ident)
  then show ?thesis
    using l by (simp add: node_at_def r)
qed

lemma node_at_File:
  "node_at w p = Some (File content) \<Longrightarrow>
   parts p \<noteq> [] \<and> last (parts p) \<noteq> ''..'' \<and> fs w p = Some (File content)"
proof -
  assume a: "node_at w p = Some (File content)"
  have ne: "parts p \<noteq> []"
    using a by (auto simp: node_at_def)
  then have r: "rev (parts p) = last (parts p) # rev (butlast (parts p))"
    by (metis append_butlast_last_id rev.simps(2) rev_append rev_rev_ident append_Nil rev.simps(1) append_Cons)
  have l: "last (parts p) \<noteq> ''..''"
  proof
    assume "last (parts p) = ''..''"
    with a r show False
      by (auto simp: node_at_def split: option.splits node.splits)
  qed
  from ne l have "plain_path p" by (simp add: plain_path_def)
  with a ne l show ?thesis by (simp add: node_at_plain)
qed

lemma node_at_File_plain: "node_at w p = Some (File content) \<Longrightarrow> plain_path p"
  using node_at_File [of w p content] by (simp add: plain_path_def)

lemma node_at_rng [simp]: "node_at (w\<lparr>rng_next := j\<rparr>) q = node_at w q"
  by (simp add: node_at_def)

lemma base_plain: "plain_path p \<Longrightarrow> base p = p"
proof -
  assume "plain_path p"
  then obtain cs where r: "rev (parts p) = last (parts p) # cs" and l: "last (parts p) \<noteq> ''..''"
    by (rule rev_parts_plain)
  have "rev (last (parts p) # cs) = parts p"
    using r by (metis rev_rev_ident)
  then show ?thesis
    using l by (simp add: base_def r)
qed

lemma resolve_Dir_upd:
  "f p \<noteq> Some Dir \<Longrightarrow>
   resolve (f(p \<mapsto> File b)) r cs = Some Dir \<longleftrightarrow> resolve f r cs = Some Dir"
  by (induction cs) (auto split: option.splits node.splits)

lemma node_at_put_file_Dir:
  "fs w p \<noteq> Some Dir \<Longrightarrow> node_at (put_file p b w) q = Some Dir \<longleftrightarrow> node_at w q = Some Dir"
  by (simp add: node_at_def put_file_def resolve_Dir_upd)

lemma node_at_put_file_same: "plain_path p \<Longrightarrow> node_at (put_file p b w) p = Some (File b)"
  by (simp add: node_at_plain put_file_def)

lemma node_at_put_file_other:
  "q \<noteq> p \<Longrightarrow> plain_path q \<Longrightarrow> node_at (put_file p b w) q = node_at w q"
  by (simp add: node_at_plain put_file_def)

lemma writable_node: "writable w p \<Longrightarrow> node_at w p \<noteq> Some Dir"
  by (simp add: writable_def node_at_plain)

lemma write_bytes_writable: "writable w p \<Longrightarrow> write_bytes p b w = (Inr (), put_file p b w)"
  by (simp add: write_bytes_def writable_def node_at_plain)

lemma write_bytes_Inr:
  assumes "write_bytes p b w = (Inr u, w')"
  shows "writable w p" "w' = put_file p b w"
  using assms by (auto simp: write_bytes_def writable_def node_at_plain split: if_splits)

lemma writable_put_file: "writable w p \<Longrightarrow> writable (put_file p b w) q = writable w q"
  by (auto simp: writable_def put_file_def)

lemma read_bytes_cong: "fs w' = fs w \<Longrightarrow> read_bytes q w' = read_bytes q w"
proof -
  assume a: "fs w' = fs w"
  then have m: "missing_error w' q = missing_error w q"
    by (simp add: missing_error_def)
  show ?thesis
    unfolding read_bytes_def node_at_def m a ..
qed

lemma read_bytes_File:
  "\<not> has_nul p \<Longrightarrow> node_at w p = Some (File b) \<Longrightarrow> read_bytes p w = Inr b"
  by (simp add: read_bytes_def)

lemma read_bytes_Inr:
  assumes "read_bytes p w = Inr b"
  shows "\<not> has_nul p" "node_at w p = Some (File b)" "plain_path p"
proof -
  show "\<not> has_nul p" "node_at w p = Some (File b)"
    using assms by (auto simp: read_bytes_def split: if_splits option.splits node.splits)
  then show "plain_path p" by (simp add: node_at_File_plain)
qed

lemma read_bytes_missing:
  "\<not> has_nul p \<Longrightarrow> plain_path p \<Longrightarrow> fs w p = None \<Longrightarrow> read_bytes p w = Inl FileNotFoundError"
  by (simp add: read_bytes_def node_at_plain missing_error_def base_plain)

section \<open>Properties of the secure erase\<close>

lemma length_draw [simp]: "length (draw R k n) = n"
  by (simp add: draw_def)

lemma length_fill_bytes [simp]: "length (fill_bytes R k rem) = rem"
proof (induction R k rem rule: fill_bytes.induct)
  case (1 R k rem)
  show ?case
  proof (cases "rem > 0")
    case True
    with 1 show ?thesis by (subst fill_bytes.simps) simp
  next
    case False
    then show ?thesis by (subst fill_bytes.simps) simp
  qed
qed

lemma n_chunks_0 [simp]: "n_chunks 0 = 0"
  by (simp add: n_chunks_def)

lemma n_chunks_step: "rem > 0 \<Longrightarrow> n_chunks rem = Suc (n_chunks (rem - min (1024 * 1024) rem))"
proof (cases "rem \<le> 1024 * 1024")
  case True
  assume "rem > 0"
  with True have "(rem + 1048575) div 1048576 = 1" by simp
  with True show ?thesis by (simp add: n_chunks_def min_def)
next
  case False
  then have "rem + 1048575 = (rem - 1048576 + 1048575) + 1048576" by simp
  then have "(rem + 1048575) div 1048576 = Suc ((rem - 1048576 + 1048575) div 1048576)"
    by (metis div_add_self2 zero_neq_numeral Suc_eq_plus1)
  with False show ?thesis by (simp add: n_chunks_def min_def)
qed

lemma pwrite_inside:
  "pos + length b \<le> length content \<Longrightarrow>
   pwrite content pos b = take pos content @ b @ drop (pos + length b) content"
  by (simp add: pwrite_def)

lemma random_fill_eq:
  "pos + rem = length content \<Longrightarrow>
   random_fill R rem content pos w =
     (take pos content @ fill_bytes R (rng_next w) rem, pos + rem,
      w\<lparr>rng_next := rng_next w + n_chunks rem\<rparr>)"
proof (induction R rem content pos w rule: random_fill.induct)
  case (1 R rem content pos w)
  show ?case
  proof (cases "rem > 0")
    case False
    then show ?thesis
      using "1.prems" by (subst random_fill.simps, subst fill_bytes.simps) simp
  next
    case True
    let ?chunk = "min (1024 * 1024) rem"
    let ?b = "draw R (rng_next w) ?chunk"
    let ?w1 = "w\<lparr>rng_next := Suc (rng_next w)\<rparr>"
    let ?c1 = "pwrite content pos ?b"
    have tb: "token_bytes R ?chunk w = (?b, ?w1)" by (simp add: token_bytes_def)
    have c1: "?c1 = take pos content @ ?b @ drop (pos + ?chunk) content"
      using "1.prems" by (subst pwrite_inside) simp_all
    have len: "pos + length ?b + (rem - ?chunk) = length ?c1"
      using "1.prems" unfolding c1 by simp
    have tk: "take (pos + length ?b) ?c1 = take pos content @ ?b"
      using "1.prems" unfolding c1 by simp
    have ih: "random_fill R (rem - ?chunk) ?c1 (pos + length ?b) ?w1 =
        (take (pos + length ?b) ?c1 @ fill_bytes R (rng_next ?w1) (rem - ?chunk),
         pos + length ?b + (rem - ?chunk), ?w1\<lparr>rng_next := rng_next ?w1 + n_chunks (rem - ?chunk)\<rparr>)"
      by (rule "1.IH" [OF True refl tb [symmetric] refl len])
    have "random_fill R rem content pos w = random_fill R (rem - ?chunk) ?c1 (pos + length ?b) ?w1"
      using True by (subst random_fill.simps) (simp add: token_bytes_def Let_def)
    also note ih
    finally have r: "random_fill R rem content pos w =
        (take (pos + length ?b) ?c1 @ fill_bytes R (rng_next ?w1) (rem - ?chunk),
         pos + length ?b + (rem - ?chunk), ?w1\<lparr>rng_next := rng_next ?w1 + n_chunks (rem - ?chunk)\<rparr>)" .
    have fb: "fill_bytes R (rng_next w) rem = ?b @ fill_bytes R (Suc (rng_next w)) (rem - ?chunk)"
      using True by (subst fill_bytes.simps) simp
    show ?thesis
      unfolding r tk fb using True by (simp add: n_chunks_step [OF True])
  qed
qed

lemma zero_fill_eq:
  "pos + rem = length content \<Longrightarrow>
   zero_fill rem content pos = (take pos content @ replicate rem (CHR 0x00), pos + rem)"
proof (induction rem content pos rule: zero_fill.induct)
  case (1 rem content pos)
  show ?case
  proof (cases "rem > 0")
    case False
    then show ?thesis using "1.prems" by (subst zero_fill.simps) simp
  next
    case True
    let ?chunk = "min (1024 * 1024) rem"
    let ?z = "take ?chunk (replicate (1024 * 1024) (CHR 0x00))"
    have z: "?z = replicate ?chunk (CHR 0x00)" by (simp add: min_def)
    let ?c1 = "pwrite content pos ?z"
    have c1: "?c1 = take pos content @ replicate ?chunk (CHR 0x00) @ drop (pos + ?chunk) content"
      using "1.prems" unfolding z by (subst pwrite_inside) simp_all
    have len: "pos + ?chunk + (rem - ?chunk) = length ?c1"
      using "1.prems" unfolding c1 by simp
    have tk: "take (pos + ?chunk) ?c1 = take pos content @ replicate ?chunk (CHR 0x00)"
      using "1.prems" unfolding c1 by simp
    have ih: "zero_fill (rem - ?chunk) ?c1 (pos + ?chunk) =
        (take (pos + ?chunk) ?c1 @ replicate (rem - ?chunk) (CHR 0x00), pos + ?chunk + (rem - ?chunk))"
      by (rule "1.IH" [OF True refl refl len])
    have "zero_fill rem content pos = zero_fill (rem - ?chunk) ?c1 (pos + ?chunk)"
      using True by (subst zero_fill.simps) (simp add: Let_def)
    also note ih
    finally show ?thesis
      using True unfolding tk by (simp add: replicate_add [symmetric])
  qed
qed

lemma pass_snapshots_Suc:
  "pass_snapshots R p k n (Suc P) =
     (p, fill_bytes R k n) # pass_snapshots R p (k + n_chunks n) n P"
proof -
  have "[0..<Suc P] = 0 # map Suc [0..<P]"
    by (simp add: upt_conv_Cons map_Suc_upt del: upt_Suc)
  then show ?thesis
    by (simp add: pass_snapshots_def comp_def add.assoc del: upt_Suc)
qed

lemma random_passes_eq:
  "length content = n \<Longrightarrow>
   random_passes R P n p content w =
     ((if P = 0 then content else fill_bytes R (rng_next w + (P - 1) * n_chunks n) n),
      w\<lparr>fs := (if P = 0 then fs w
                else (fs w)(p \<mapsto> File (fill_bytes R (rng_next w + (P - 1) * n_chunks n) n))),
        rng_next := rng_next w + P * n_chunks n,
        synced := synced w @ pass_snapshots R p (rng_next w) n P\<rparr>)"
proof (induction P arbitrary: content w)
  case 0
  then show ?case by (simp add: pass_snapshots_def)
next
  case (Suc P)
  let ?k = "rng_next w" and ?c = "n_chunks n"
  let ?c1 = "fill_bytes R ?k n"
  let ?w1 = "w\<lparr>rng_next := ?k + ?c\<rparr>"
  let ?w2 = "fsync p ?c1 ?w1"
  have rf: "random_fill R n content 0 w = (?c1, n, ?w1)"
    using random_fill_eq [of 0 n content R w] Suc.prems by simp
  have step: "random_passes R (Suc P) n p content w = random_passes R P n p ?c1 ?w2"
    by (simp add: rf Let_def)
  have len1: "length ?c1 = n" by simp
  have k2: "rng_next ?w2 = ?k + ?c" by (simp add: fsync_def put_file_def)
  have s2: "synced ?w2 = synced w @ [(p, ?c1)]" by (simp add: fsync_def put_file_def)
  have f2: "fs ?w2 = (fs w)(p \<mapsto> File ?c1)" by (simp add: fsync_def put_file_def)
  show ?case
  proof (cases "P = 0")
    case True
    then show ?thesis
      unfolding step
      by (auto simp add: pass_snapshots_def fsync_def put_file_def intro!: world.equality)
  next
    case False
    then have idx: "?k + ?c + (P - 1) * ?c = ?k + P * ?c"
      by (cases P) simp_all
    show ?thesis
      unfolding step Suc.IH [OF len1] k2 s2 f2 idx pass_snapshots_Suc
      using False by (auto simp add: fsync_def put_file_def add.assoc intro!: world.equality)
  qed
qed

lemma zero_fill_full:
  "length content = n \<Longrightarrow> zero_fill n content 0 = (replicate n (CHR 0x00), n)"
  using zero_fill_eq [of 0 n content] by simp

lemma secure_overwrite_and_delete_file:
  assumes "path_exists w p" "node_at w p = Some (File content)"
  shows "secure_overwrite_and_delete R p passes w =
     (Inr (),
      w\<lparr>fs := (fs w)(p := None),
        rng_next := rng_next w + nat passes * n_chunks (length content),
        synced := synced w @ pass_snapshots R p (rng_next w) (length content) (nat passes)
                    @ [(p, replicate (length content) (CHR 0x00))]\<rparr>)"
  unfolding secure_overwrite_and_delete_def
  using assms
  by (auto simp add: random_passes_eq [OF refl] Let_def zero_fill_full fsync_def put_file_def
        unlink_def intro!: world.equality)

text \<open>
  Claim C8. When the path is absent the erase fails with FileNotFoundError and changes
  nothing. When it holds a regular file of \<open>n\<close> bytes, the erase succeeds; the contents
  forced to stable storage are, in order, one full-length random fill per pass
  (\<open>nat passes\<close> of them, pass \<open>i\<close> made of the \<open>n_chunks n\<close> draws starting at draw
  \<open>rng_next w + i * n_chunks n\<close>, so no draw is used twice), each synced before the next
  pass starts, then \<open>n\<close> zero bytes; the file is then removed, the path no longer
  exists and \<open>load_key\<close> on it fails with FileNotFoundError.
\<close>

theorem wipe_key:
  "(\<not> path_exists w p \<longrightarrow>
      secure_overwrite_and_delete R p passes w = (Inl FileNotFoundError, w))
   \<and> (path_exists w p \<and> node_at w p = Some (File content) \<longrightarrow>
        (let n = length content;
             w' = snd (secure_overwrite_and_delete R p passes w)
         in fst (secure_overwrite_and_delete R p passes w) = Inr ()
            \<and> synced w' =
                synced w
                @ map (\<lambda>i. (p, fill_bytes R (rng_next w + i * n_chunks n) n)) [0..<nat passes]
                @ [(p, replicate n (CHR 0x00))]
            \<and> (\<forall>i < nat passes. length (fill_bytes R (rng_next w + i * n_chunks n) n) = n)
            \<and> rng_next w' = rng_next w + nat passes * n_chunks n
            \<and> fs w' = (fs w)(p := None)
            \<and> \<not> path_exists w' p
            \<and> load_key p w' = Inl FileNotFoundError))"
proof (intro conjI impI)
  assume "\<not> path_exists w p"
  then show "secure_overwrite_and_delete R p passes w = (Inl FileNotFoundError, w)"
    by (simp add: secure_overwrite_and_delete_def)
next
  assume a: "path_exists w p \<and> node_at w p = Some (File content)"
  then have nn: "\<not> has_nul p" and sp: "plain_path p"
    using node_at_File_plain [of w p content] by (auto simp: path_exists_def)
  show "let n = length content;
            w' = snd (secure_overwrite_and_delete R p passes w)
        in fst (secure_overwrite_and_delete R p passes w) = Inr ()
            \<and> synced w' =
                synced w
                @ map (\<lambda>i. (p, fill_bytes R (rng_next w + i * n_chunks n) n)) [0..<nat passes]
                @ [(p, replicate n (CHR 0x00))]
            \<and> (\<forall>i < nat passes. length (fill_bytes R (rng_next w + i * n_chunks n) n) = n)
            \<and> rng_next w' = rng_next w + nat passes * n_chunks n
            \<and> fs w' = (fs w)(p := None)
            \<and> \<not> path_exists w' p
            \<and> load_key p w' = Inl FileNotFoundError"
    unfolding Let_def secure_overwrite_and_delete_file [of w p content R passes, OF conjunct1 [OF a] conjunct2 [OF a]]
    using nn sp
    by (simp add: pass_snapshots_def path_exists_def node_at_plain load_key_def
          read_bytes_missing)
qed

theorem wipe_key_witness:
  "path_exists key_world (Path [] [''keys'', ''k1''])
   \<and> node_at key_world (Path [] [''keys'', ''k1'']) = Some (File ''abc'')
   \<and> fst (secure_overwrite_and_delete demo_rand (Path [] [''keys'', ''k1'']) 3 key_world) = Inr ()
   \<and> load_key (Path [] [''keys'', ''k1''])
        (snd (secure_overwrite_and_delete demo_rand (Path [] [''keys'', ''k1'']) 3 key_world))
      = Inl FileNotFoundError
   \<and> \<not> path_exists key_world (Path [] [''keys'', ''k2''])
   \<and> secure_overwrite_and_delete demo_rand (Path [] [''keys'', ''k2'']) 3 key_world
      = (Inl FileNotFoundError, key_world)"
proof -
  have e: "path_exists key_world (Path [] [''keys'', ''k1''])"
    "node_at key_world (Path [] [''keys'', ''k1'']) = Some (File ''abc'')"
    "\<not> path_exists key_world (Path [] [''keys'', ''k2''])"
    by (simp_all add: path_exists_def has_nul_def node_at_def key_world_def)
  show ?thesis
    using e wipe_key [of key_world "Path [] [''keys'', ''k1'']" demo_rand 3 "''abc''"]
      wipe_key [of key_world "Path [] [''keys'', ''k2'']" demo_rand 3 "''abc''"]
    by (simp add: Let_def)
qed

text \<open>
  Claim C10. Every non-negative pass count is accepted. With \<open>passes = 0\<close> no random
  bytes are drawn and nothing but the zero fill is synced: the file is overwritten with
  zeros over its whole length, synced and removed, and the path no longer exists.
\<close>

theorem wipe_key_zero_passes:
  assumes "path_exists w p" "node_at w p = Some (File content)"
  shows "(\<forall>passes. 0 \<le> passes \<longrightarrow> fst (secure_overwrite_and_delete R p passes w) = Inr ())
       \<and> secure_overwrite_and_delete R p 0 w =
           (Inr (), w\<lparr>fs := (fs w)(p := None),
                      synced := synced w @ [(p, replicate (length content) (CHR 0x00))]\<rparr>)
       \<and> rng_next (snd (secure_overwrite_and_delete R p 0 w)) = rng_next w
       \<and> \<not> path_exists (snd (secure_overwrite_and_delete R p 0 w)) p"
proof -
  have nn: "\<not> has_nul p" and sp: "plain_path p"
    using assms node_at_File_plain [of w p content] by (auto simp: path_exists_def)
  show ?thesis
    unfolding secure_overwrite_and_delete_file [OF assms]
    using nn sp
    by (auto simp add: pass_snapshots_def path_exists_def node_at_plain intro!: world.equality)
qed

theorem wipe_key_zero_passes_witness:
  "path_exists key_world (Path [] [''keys'', ''k1''])
   \<and> node_at key_world (Path [] [''keys'', ''k1'']) = Some (File ''abc'')
   \<and> (0::int) \<le> 0
   \<and> fst (secure_overwrite_and_delete demo_rand (Path [] [''keys'', ''k1'']) 0 key_world) = Inr ()
   \<and> synced (snd (secure_overwrite_and_delete demo_rand (Path [] [''keys'', ''k1'']) 0 key_world))
        = [(Path [] [''keys'', ''k1''], [CHR 0x00, CHR 0x00, CHR 0x00])]
   \<and> \<not> path_exists (snd (secure_overwrite_and_delete demo_rand (Path [] [''keys'', ''k1'']) 0 key_world))
          (Path [] [''keys'', ''k1''])"
proof -
  have e: "path_exists key_world (Path [] [''keys'', ''k1''])"
    "node_at key_world (Path [] [''keys'', ''k1'']) = Some (File ''abc'')"
    by (simp_all add: path_exists_def has_nul_def node_at_def key_world_def)
  have s: "synced key_world = []" by (simp add: key_world_def)
  show ?thesis
    using e s wipe_key_zero_passes [of key_world "Path [] [''keys'', ''k1'']" "''abc''" demo_rand, OF e]
    by (auto simp add: numeral_3_eq_3)
qed

section \<open>Properties of the container codec\<close>




lemma utf8_ok_1: "a < 128 \<Longrightarrow> utf8_ok (a # r) = utf8_ok r"
  by simp













lemma slice_mid: "slice (pre @ xs @ post) (length pre) (length pre + length xs) = xs"
  by (simp add: slice_def)








section \<open>Round trip, truncation and rewriting\<close>

lemma length_MAGIC [simp]: "length MAGIC = 10"
  by (simp add: MAGIC_def)

lemma writable_rng [simp]: "writable (w\<lparr>rng_next := j\<rparr>) q = writable w q"
  by (simp add: writable_def)


lemma write_chunks_Inr:
  assumes "write_chunks fault p chunks w = (Inr u, w')"
  shows "writable w p" "w' = put_file p (concat chunks) w"
  using assms
  by (auto simp: write_chunks_def writable_def node_at_plain split: if_splits option.splits)

lemma read_container_written:
  assumes "\<not> has_nul p" "node_at w p = Some (File (MAGIC @ [char_of (12::nat)] @ N @ ct))"
    and "length N = 12"
  shows "read_container p w = Inr (N, ct)"
  using assms by (simp add: read_container_def read_bytes_def)

lemma encode_record_eq:
  "encode_record f d =
     (if length f < 65536 then
        (if length d < 2 ^ 64 then Inr (rec_bytes f d) else Inl OverflowError)
      else Inl OverflowError)"
  by (simp add: encode_record_def to_bytes_def rec_bytes_def)

lemma nonce_ok_draw [simp]: "nonce_ok (draw R j 12)"
  by (simp add: nonce_ok_def draw_def)

lemma length_draw12 [simp]: "length (draw R j n) = n"
  by (simp add: draw_def)

lemma add_effect:
  assumes "add_file_to_container A R fault c k u w = (Inr x, w')"
  obtains key plain where "open_container A c k w = Inr (key, plain)"
    and "length (stored_name (fst u)) < 65536" and "length (snd u) < 2 ^ 64"
    and "writable w c"
    and "w' = put_file c
           (MAGIC @ [char_of (12::nat)] @ draw R (rng_next w) 12
              @ encrypt A key (draw R (rng_next w) 12)
                  (plain @ rec_bytes (stored_name (fst u)) (snd u)))
           (w\<lparr>rng_next := Suc (rng_next w)\<rparr>)"
proof (cases "open_container A c k w")
  case (Inl e)
  with assms show ?thesis by (simp add: add_file_to_container_def)
next
  case (Inr kp)
  obtain key plain where kp: "kp = (key, plain)" by (cases kp)
  let ?f = "stored_name (fst u)" and ?d = "snd u"
  have sz: "length ?f < 65536 \<and> length ?d < 2 ^ 64"
  proof (rule ccontr)
    assume "\<not> ?thesis"
    then have "encode_record ?f ?d = Inl OverflowError" by (auto simp: encode_record_eq)
    with assms Inr kp show False
      by (simp add: add_file_to_container_def Let_def stored_name_def)
  qed
  then have enc: "encode_record ?f ?d = Inr (rec_bytes ?f ?d)" by (simp add: encode_record_eq)
  let ?N = "draw R (rng_next w) 12"
  let ?w1 = "w\<lparr>rng_next := Suc (rng_next w)\<rparr>"
  have wc: "write_chunks fault c
      [MAGIC, [char_of (length ?N)], ?N, encrypt A key ?N (plain @ rec_bytes ?f ?d)] ?w1 = (Inr x, w')"
    using assms Inr kp enc
    by (simp add: add_file_to_container_def Let_def stored_name_def token_bytes_def aes_encrypt_def)
  from write_chunks_Inr [OF wc] Inr kp sz show ?thesis
    by (intro that [of key plain]) simp_all
qed

lemma AESGCM_Inr: "AESGCM key = Inr aes \<longleftrightarrow> aes = key \<and> length key \<in> {16, 24, 32}"
  by (auto simp: AESGCM_def)

lemma create_effect:
  assumes "create_encrypted_container A R fault c k w = (Inr x, w')"
  obtains key w1 where "\<not> path_exists w c" and "length key \<in> {16, 24, 32}"
    and "if path_exists w k then load_key k w = Inr key \<and> w1 = w
         else key = draw R (rng_next w) 32 \<and> writable w k
              \<and> w1 = put_file k key (w\<lparr>rng_next := Suc (rng_next w)\<rparr>)"
    and "writable w1 c"
    and "w' = put_file c
           (MAGIC @ [char_of (12::nat)] @ draw R (rng_next w1) 12
              @ encrypt A key (draw R (rng_next w1) 12) [])
           (w1\<lparr>rng_next := Suc (rng_next w1)\<rparr>)"
proof -
  have nc: "\<not> path_exists w c"
    using assms by (auto simp: create_encrypted_container_def)
  define kr where "kr =
     (if \<not> path_exists w k then
        (let (k', w0) = generate_key_bytes R w in
         case save_key k' k w0 of
           (Inl e, w0') \<Rightarrow> (Inl e, w0')
         | (Inr u, w0') \<Rightarrow> (Inr k', w0'))
      else (load_key k w, w))"
  obtain r w1 where kr: "kr = (r, w1)" by (cases kr)
  have body: "(case r of
         Inl e \<Rightarrow> (Inl e, w1)
       | Inr key \<Rightarrow>
           (case AESGCM key of
              Inl e \<Rightarrow> (Inl e, w1)
            | Inr aes \<Rightarrow>
                let (nonce, w2) = token_bytes R 12 w1 in
                case aes_encrypt A aes nonce [] of
                  Inl e \<Rightarrow> (Inl e, w2)
                | Inr ct \<Rightarrow>
                    write_chunks fault c [MAGIC, [char_of (length nonce)], nonce, ct] w2)) = (Inr x, w')"
    using assms nc kr unfolding create_encrypted_container_def kr_def [symmetric]
    by (simp add: Let_def)
  obtain key where r: "r = Inr key"
    using body by (cases r) auto
  have lk: "length key \<in> {16, 24, 32}" and aes: "AESGCM key = Inr key"
    using body r by (auto simp: AESGCM_def split: if_splits)
  let ?N = "draw R (rng_next w1) 12"
  have wc: "write_chunks fault c [MAGIC, [char_of (length ?N)], ?N, encrypt A key ?N []]
              (w1\<lparr>rng_next := Suc (rng_next w1)\<rparr>) = (Inr x, w')"
    using body r aes by (simp add: token_bytes_def aes_encrypt_def Let_def)
  have k1: "if path_exists w k then load_key k w = Inr key \<and> w1 = w
         else key = draw R (rng_next w) 32 \<and> writable w k
              \<and> w1 = put_file k key (w\<lparr>rng_next := Suc (rng_next w)\<rparr>)"
    using kr r unfolding kr_def
    by (auto simp: generate_key_bytes_def token_bytes_def save_key_def write_bytes_def Let_def
          writable_def node_at_plain split: if_splits)
  from write_chunks_Inr [OF wc] nc lk k1 show ?thesis
    by (intro that [of key w1]) simp_all
qed

lemma open_container_written:
  assumes "aead_correct A" "c \<noteq> k" "read_bytes k w = Inr key" "length key \<in> {16, 24, 32}"
    and "writable w c"
  shows "open_container A c k
           (put_file c (MAGIC @ [char_of (12::nat)] @ draw R j 12 @ encrypt A key (draw R j 12) plain)
              (w\<lparr>rng_next := m\<rparr>)) = Inr (key, plain)"
proof -
  define N where "N = draw R j 12"
  define ct where "ct = encrypt A key N plain"
  define w' where "w' = put_file c (MAGIC @ [char_of (12::nat)] @ N @ ct) (w\<lparr>rng_next := m\<rparr>)"
  have lN: "length N = 12" and okN: "nonce_ok N" by (simp_all add: N_def)
  have "node_at w' k = node_at w k"
    unfolding w'_def using assms(2) read_bytes_Inr(3) [OF assms(3)]
    by (simp add: node_at_put_file_other)
  then have "node_at w' k = Some (File key)"
    using read_bytes_Inr(2) [OF assms(3)] by simp
  then have lk: "load_key k w' = Inr key"
    using read_bytes_Inr(1) [OF assms(3)] by (simp add: load_key_def read_bytes_File)
  have c: "\<not> has_nul c" "plain_path c"
    using assms(5) by (simp_all add: writable_def)
  have "node_at w' c = Some (File (MAGIC @ [char_of (12::nat)] @ N @ ct))"
    unfolding w'_def by (rule node_at_put_file_same [OF c(2)])
  then have rc: "read_container c w' = Inr (N, ct)"
    by (rule read_container_written [OF c(1) _ lN])
  have "decrypt A key N ct = Some plain"
    using assms(1) unfolding ct_def aead_correct_def by blast
  then have dec: "aes_decrypt A key N ct = Inr plain"
    using okN by (simp add: aes_decrypt_def)
  have aes: "AESGCM key = Inr key"
    using assms(4) unfolding AESGCM_def by (rule if_P)
  have "open_container A c k w' = Inr (key, plain)"
    by (simp add: open_container_def lk aes rc dec)
  then show ?thesis unfolding w'_def ct_def N_def .
qed

lemma open_container_key:
  assumes "open_container A c k w = Inr (key, plain)"
  shows "read_bytes k w = Inr key" "length key \<in> {16, 24, 32}"
  using assms
  by (auto simp: open_container_def load_key_def AESGCM_def split: sum.splits if_splits prod.splits)

lemma open_after_create:
  assumes "aead_correct A" "c \<noteq> k"
    and "create_encrypted_container A R fault c k w = (Inr x, w')"
  shows "\<exists>key. open_container A c k w' = Inr (key, [])"
proof -
  from assms(3) obtain key w1 where lk: "length key \<in> {16, 24, 32}"
    and k1: "if path_exists w k then load_key k w = Inr key \<and> w1 = w
         else key = draw R (rng_next w) 32 \<and> writable w k
              \<and> w1 = put_file k key (w\<lparr>rng_next := Suc (rng_next w)\<rparr>)"
    and c: "writable w1 c"
    and w': "w' = put_file c
           (MAGIC @ [char_of (12::nat)] @ draw R (rng_next w1) 12
              @ encrypt A key (draw R (rng_next w1) 12) [])
           (w1\<lparr>rng_next := Suc (rng_next w1)\<rparr>)"
    by (rule create_effect)
  have rk: "read_bytes k w1 = Inr key"
  proof (cases "path_exists w k")
    case True
    with k1 show ?thesis by (simp add: load_key_def)
  next
    case False
    with k1 show ?thesis
      by (simp add: read_bytes_File node_at_put_file_same writable_def)
  qed
  show ?thesis
    unfolding w' using open_container_written [OF assms(1,2) rk lk c] by blast
qed

lemma open_after_add:
  assumes "aead_correct A" "c \<noteq> k"
    and "add_file_to_container A R fault c k u w = (Inr x, w')"
  obtains key plain where "open_container A c k w = Inr (key, plain)"
    and "open_container A c k w' = Inr (key, plain @ rec_bytes (stored_name (fst u)) (snd u))"
    and "length (stored_name (fst u)) < 65536" and "length (snd u) < 2 ^ 64"
proof -
  from assms(3) obtain key plain where o: "open_container A c k w = Inr (key, plain)"
    and sz: "length (stored_name (fst u)) < 65536" "length (snd u) < 2 ^ 64"
    and c: "writable w c"
    and w': "w' = put_file c
           (MAGIC @ [char_of (12::nat)] @ draw R (rng_next w) 12
              @ encrypt A key (draw R (rng_next w) 12)
                  (plain @ rec_bytes (stored_name (fst u)) (snd u)))
           (w\<lparr>rng_next := Suc (rng_next w)\<rparr>)"
    by (rule add_effect)
  have "open_container A c k w' = Inr (key, plain @ rec_bytes (stored_name (fst u)) (snd u))"
    unfolding w' by (rule open_container_written [OF assms(1,2) open_container_key [OF o] c])
  then show ?thesis using that [OF o _ sz] by blast
qed

lemma enc_all_append: "enc_all (xs @ ys) = enc_all xs @ enc_all ys"
  by (simp add: enc_all_def)
















lemma open_container_readable:
  assumes "open_container A c k w = Inr (key, plain)"
  shows "writable w c"
proof -
  from assms obtain f where "read_bytes c w = Inr f"
    by (auto simp: open_container_def read_container_def split: sum.splits)
  from read_bytes_Inr [OF this] show ?thesis
    by (simp add: writable_def node_at_plain)
qed


section \<open>The codec on concrete containers\<close>

lemma add_as_write_chunks:
  assumes "open_container A c k w = Inr (key, plain)"
    and "length (stored_name (fst u)) < 65536" "length (snd u) < 2 ^ 64"
  shows "add_file_to_container A R fault c k u w =
           write_chunks fault c
             [MAGIC, [char_of (12::nat)], draw R (rng_next w) 12,
              encrypt A key (draw R (rng_next w) 12)
                (plain @ rec_bytes (stored_name (fst u)) (snd u))]
             (w\<lparr>rng_next := Suc (rng_next w)\<rparr>)"
proof -
  have enc: "encode_record (stored_name (fst u)) (snd u) = Inr (rec_bytes (stored_name (fst u)) (snd u))"
    using assms(2,3) by (simp add: encode_record_eq)
  show ?thesis
    using enc
    by (simp add: add_file_to_container_def assms(1) Let_def stored_name_def token_bytes_def
          aes_encrypt_def)
qed

lemma write_chunks_None:
  "writable w p \<Longrightarrow> write_chunks None p chunks w = (Inr (), put_file p (concat chunks) w)"
  by (simp add: write_chunks_def writable_def node_at_plain)


lemma create_fresh:
  assumes "writable w c" "writable w k" "fs w c = None" "fs w k = None" "c \<noteq> k"
  shows "create_encrypted_container A R None c k w =
     (Inr (),
      put_file c
        (MAGIC @ [char_of (12::nat)] @ draw R (Suc (rng_next w)) 12
           @ encrypt A (draw R (rng_next w) 32) (draw R (Suc (rng_next w)) 12) [])
        ((put_file k (draw R (rng_next w) 32) w)\<lparr>rng_next := Suc (Suc (rng_next w))\<rparr>))"
proof -
  let ?K = "draw R (rng_next w) 32"
  let ?w0 = "w\<lparr>rng_next := Suc (rng_next w)\<rparr>"
  let ?w1 = "put_file k ?K ?w0"
  have e: "\<not> path_exists w c" "\<not> path_exists w k"
    using assms(1-4) by (simp_all add: path_exists_def writable_def node_at_plain)
  have sk: "save_key ?K k ?w0 = (Inr (), ?w1)"
    using assms(2) by (simp add: save_key_def write_bytes_writable)
  have aes: "AESGCM ?K = Inr ?K" by (simp add: AESGCM_def)
  have nd: "writable (?w1\<lparr>rng_next := Suc (rng_next ?w1)\<rparr>) c"
    using assms(1,2) by (simp add: writable_put_file)
  have r1: "rng_next ?w1 = Suc (rng_next w)" by (simp add: put_file_def)
  have wc: "write_chunks None c
              [MAGIC, [char_of (12::nat)], draw R (rng_next ?w1) 12, encrypt A ?K (draw R (rng_next ?w1) 12) []]
              (?w1\<lparr>rng_next := Suc (rng_next ?w1)\<rparr>)
            = (Inr (), put_file c (concat [MAGIC, [char_of (12::nat)], draw R (rng_next ?w1) 12,
                 encrypt A ?K (draw R (rng_next ?w1) 12) []]) (?w1\<lparr>rng_next := Suc (rng_next ?w1)\<rparr>))"
    by (rule write_chunks_None [OF nd])
  have "create_encrypted_container A R None c k w =
          write_chunks None c
              [MAGIC, [char_of (12::nat)], draw R (rng_next ?w1) 12, encrypt A ?K (draw R (rng_next ?w1) 12) []]
              (?w1\<lparr>rng_next := Suc (rng_next ?w1)\<rparr>)"
    using e
    by (simp add: create_encrypted_container_def generate_key_bytes_def token_bytes_def sk aes
          aes_encrypt_def Let_def)
  also note wc
  finally show ?thesis
    by (simp add: r1 put_file_def)
qed

lemma aead_correct_demo: "aead_correct demo_aead"
  by (simp add: aead_correct_def demo_aead_def)

lemma demo_path_facts:
  "\<not> has_nul demo_container" "\<not> has_nul demo_key" "\<not> has_nul demo_outdir"
  "demo_container \<noteq> demo_key" "demo_outdir \<noteq> demo_container" "demo_outdir \<noteq> demo_key"
  "plain_path demo_container" "plain_path demo_key" "plain_path demo_outdir"
  by (simp_all add: has_nul_def plain_path_def demo_container_def demo_key_def demo_outdir_def)

lemma created_facts:
  shows "create_encrypted_container demo_aead demo_rand None demo_container demo_key empty_world
           = (Inr (), created)"
    and "\<exists>key. open_container demo_aead demo_container demo_key created = Inr (key, [])"
    and "\<And>q. q \<noteq> demo_container \<Longrightarrow> q \<noteq> demo_key \<Longrightarrow> fs created q = None"
    and "rng_next created = 2"
proof -
  have n: "fs empty_world demo_container = None" "fs empty_world demo_key = None"
    by (simp_all add: empty_world_def)
  have wr: "writable empty_world demo_container" "writable empty_world demo_key"
    using demo_path_facts by (simp_all add: writable_def empty_world_def)
  note cf = create_fresh [OF wr n demo_path_facts(4), of demo_aead demo_rand]
  show c: "create_encrypted_container demo_aead demo_rand None demo_container demo_key empty_world
           = (Inr (), created)"
    unfolding created_def cf by simp
  show "\<exists>key. open_container demo_aead demo_container demo_key created = Inr (key, [])"
    by (rule open_after_create [OF aead_correct_demo demo_path_facts(4) c])
  show "fs created q = None" if "q \<noteq> demo_container" "q \<noteq> demo_key" for q
    unfolding created_def cf using that by (simp add: put_file_def empty_world_def)
  show "rng_next created = 2"
    unfolding created_def cf by (simp add: put_file_def empty_world_def)
qed

lemma single_upload:
  fixes u :: "string \<times> bytes"
  assumes "length (stored_name (fst u)) < 65536" "length (snd u) < 2 ^ 64"
  defines "w1 \<equiv> snd (add_files demo_aead demo_rand demo_container demo_key [u] created)"
  shows "add_files demo_aead demo_rand demo_container demo_key [u] created = (Inr (), w1)"
    and "\<exists>key. open_container demo_aead demo_container demo_key w1
                  = Inr (key, rec_bytes (stored_name (fst u)) (snd u))"
    and "\<And>q. q \<noteq> demo_container \<Longrightarrow> q \<noteq> demo_key \<Longrightarrow> fs w1 q = None"
proof -
  from created_facts(2) obtain key
    where o: "open_container demo_aead demo_container demo_key created = Inr (key, [])" by blast
  have nd: "writable (created\<lparr>rng_next := Suc (rng_next created)\<rparr>) demo_container"
    using open_container_readable [OF o] by simp
  have a: "add_file_to_container demo_aead demo_rand None demo_container demo_key u created =
      (Inr (), put_file demo_container
         (concat [MAGIC, [char_of (12::nat)], draw demo_rand (rng_next created) 12,
              encrypt demo_aead key (draw demo_rand (rng_next created) 12)
                ([] @ rec_bytes (stored_name (fst u)) (snd u))])
         (created\<lparr>rng_next := Suc (rng_next created)\<rparr>))"
    unfolding add_as_write_chunks [OF o assms(1,2)]
    by (rule write_chunks_None [OF nd])
  then have af: "add_files demo_aead demo_rand demo_container demo_key [u] created =
      (Inr (), put_file demo_container
         (concat [MAGIC, [char_of (12::nat)], draw demo_rand (rng_next created) 12,
              encrypt demo_aead key (draw demo_rand (rng_next created) 12)
                ([] @ rec_bytes (stored_name (fst u)) (snd u))])
         (created\<lparr>rng_next := Suc (rng_next created)\<rparr>))"
    by simp
  show s: "add_files demo_aead demo_rand demo_container demo_key [u] created = (Inr (), w1)"
    unfolding w1_def af by simp
  have a1: "add_file_to_container demo_aead demo_rand None demo_container demo_key u created
              = (Inr (), w1)"
    unfolding w1_def af a by simp
  from open_after_add [OF aead_correct_demo demo_path_facts(4) a1] o
  show "\<exists>key. open_container demo_aead demo_container demo_key w1
                  = Inr (key, rec_bytes (stored_name (fst u)) (snd u))"
    by (metis append_Nil old.prod.inject sum.inject(2))
  show "fs w1 q = None" if "q \<noteq> demo_container" "q \<noteq> demo_key" for q
    unfolding w1_def af using that created_facts(3) [OF that] by (simp add: put_file_def)
qed




lemma a_txt_facts:
  "stored_name ''a.txt'' = ''a.txt''" "utf8_valid ''a.txt''"
  "joinpath demo_outdir ''a.txt'' = Path [] [''out'', ''a.txt'']"
  by (simp_all add: stored_name_def mk_path_def parse_parts_def path_name_def utf8_valid_def
        joinpath_def path_root_def demo_outdir_def)


section \<open>Nonces, truncated records and failed rewrites\<close>

lemma rng_put_file [simp]: "rng_next (put_file p b w) = rng_next w"
  by (simp add: put_file_def)

lemma container_parts_written:
  assumes "writable w c" "length N = 12"
  shows "container_parts c (put_file c (MAGIC @ [char_of (12::nat)] @ N @ ct) w) = Some (N, ct)"
proof -
  have c: "\<not> has_nul c" "plain_path c"
    using assms(1) by (simp_all add: writable_def)
  have "read_container c (put_file c (MAGIC @ [char_of (12::nat)] @ N @ ct) w) = Inr (N, ct)"
    by (rule read_container_written [OF c(1) node_at_put_file_same [OF c(2)] assms(2)])
  then show ?thesis by (simp add: container_parts_def)
qed

lemma create_trace_head:
  assumes "aead_correct A" "c \<noteq> k"
    and "create_encrypted_container A R fault c k w = (Inr x, w')"
  shows "open_container A c k w' = Inr (session_key R k w, [])"
    and "rng_next w' = Suc (first_nonce k w)"
    and "container_parts c w' =
           Some (draw R (first_nonce k w) 12,
                 encrypt A (session_key R k w) (draw R (first_nonce k w) 12) [])"
proof -
  from assms(3) obtain key w1 where lk: "length key \<in> {16, 24, 32}"
    and k1: "if path_exists w k then load_key k w = Inr key \<and> w1 = w
         else key = draw R (rng_next w) 32 \<and> writable w k
              \<and> w1 = put_file k key (w\<lparr>rng_next := Suc (rng_next w)\<rparr>)"
    and c: "writable w1 c"
    and w': "w' = put_file c
           (MAGIC @ [char_of (12::nat)] @ draw R (rng_next w1) 12
              @ encrypt A key (draw R (rng_next w1) 12) [])
           (w1\<lparr>rng_next := Suc (rng_next w1)\<rparr>)"
    by (rule create_effect)
  have key: "key = session_key R k w" and r1: "rng_next w1 = first_nonce k w"
    using k1 by (auto simp: session_key_def first_nonce_def split: if_splits)
  have rk: "read_bytes k w1 = Inr key"
  proof (cases "path_exists w k")
    case True
    with k1 show ?thesis by (simp add: load_key_def)
  next
    case False
    with k1 show ?thesis
      by (simp add: read_bytes_File node_at_put_file_same writable_def)
  qed
  show "open_container A c k w' = Inr (session_key R k w, [])"
    unfolding w' key [symmetric] by (rule open_container_written [OF assms(1,2) rk lk c])
  show "rng_next w' = Suc (first_nonce k w)"
    unfolding w' by (simp add: r1)
  have c': "writable (w1\<lparr>rng_next := Suc (rng_next w1)\<rparr>) c"
    using c by simp
  show "container_parts c w' =
           Some (draw R (first_nonce k w) 12,
                 encrypt A (session_key R k w) (draw R (first_nonce k w) 12) [])"
    unfolding w' key [symmetric] r1 [symmetric]
    by (rule container_parts_written [OF c']) simp
qed

lemma add_trace_step:
  assumes "aead_correct A" "c \<noteq> k"
    and "add_file_to_container A R fault c k u w = (Inr x, w')"
    and "open_container A c k w = Inr (key, plain)"
  shows "open_container A c k w' = Inr (key, plain @ rec_bytes (stored_name (fst u)) (snd u))"
    and "rng_next w' = Suc (rng_next w)"
    and "container_parts c w' =
           Some (draw R (rng_next w) 12,
                 encrypt A key (draw R (rng_next w) 12)
                   (plain @ rec_bytes (stored_name (fst u)) (snd u)))"
proof -
  from assms(3) obtain key' plain' where o: "open_container A c k w = Inr (key', plain')"
    and c: "writable w c"
    and w': "w' = put_file c
           (MAGIC @ [char_of (12::nat)] @ draw R (rng_next w) 12
              @ encrypt A key' (draw R (rng_next w) 12)
                  (plain' @ rec_bytes (stored_name (fst u)) (snd u)))
           (w\<lparr>rng_next := Suc (rng_next w)\<rparr>)"
    by (rule add_effect)
  from o assms(4) have eq: "key' = key" "plain' = plain" by simp_all
  show "open_container A c k w' = Inr (key, plain @ rec_bytes (stored_name (fst u)) (snd u))"
    unfolding w' eq by (rule open_container_written [OF assms(1,2) open_container_key [OF assms(4)] c])
  show "rng_next w' = Suc (rng_next w)"
    unfolding w' by simp
  have c': "writable (w\<lparr>rng_next := Suc (rng_next w)\<rparr>) c"
    using c by simp
  show "container_parts c w' =
           Some (draw R (rng_next w) 12,
                 encrypt A key (draw R (rng_next w) 12)
                   (plain @ rec_bytes (stored_name (fst u)) (snd u)))"
    unfolding w' eq by (rule container_parts_written [OF c']) simp
qed

lemma enc_all_stored_Cons:
  "enc_all (stored (u # us)) = rec_bytes (stored_name (fst u)) (snd u) @ enc_all (stored us)"
  by (cases u) (simp add: enc_all_def stored_def)

lemma add_trace_eq:
  assumes "aead_correct A" "c \<noteq> k"
  shows "open_container A c k w = Inr (key, plain) \<Longrightarrow>
     add_trace A R c k us w =
       map (\<lambda>i. Some (draw R (rng_next w + i) 12,
                      encrypt A key (draw R (rng_next w + i) 12)
                        (plain @ enc_all (stored (take (Suc i) us)))))
         [0..<length (add_trace A R c k us w)]"
proof (induction us arbitrary: w plain)
  case Nil
  then show ?case by simp
next
  case (Cons u us)
  obtain r w1 where a: "add_file_to_container A R None c k u w = (r, w1)"
    by (cases "add_file_to_container A R None c k u w")
  show ?case
  proof (cases r)
    case (Inl e)
    then show ?thesis by (simp add: a)
  next
    case (Inr x)
    note a1 = a [unfolded Inr]
    note st = add_trace_step [OF assms a1 Cons.prems]
    let ?n = "length (add_trace A R c k us w1)"
    have t: "add_trace A R c k (u # us) w = container_parts c w1 # add_trace A R c k us w1"
      by (simp add: a1)
    have ih: "add_trace A R c k us w1 =
       map (\<lambda>i. Some (draw R (rng_next w1 + i) 12,
                      encrypt A key (draw R (rng_next w1 + i) 12)
                        ((plain @ rec_bytes (stored_name (fst u)) (snd u))
                           @ enc_all (stored (take (Suc i) us)))))
         [0..<?n]"
      by (rule Cons.IH [OF st(1)])
    have "container_parts c w1 # add_trace A R c k us w1 =
       map (\<lambda>i. Some (draw R (rng_next w + i) 12,
                      encrypt A key (draw R (rng_next w + i) 12)
                        (plain @ enc_all (stored (take (Suc i) (u # us))))))
         [0..<Suc ?n]"
      unfolding map_upt_Suc
      by (subst ih) (simp add: st(2,3) enc_all_def stored_def split_def)
    then show ?thesis
      unfolding t by simp
  qed
qed

lemma add_trace_length:
  "add_files A R c k us w = (Inr x, w') \<Longrightarrow> length (add_trace A R c k us w) = length us"
  by (induction us arbitrary: w) (auto split: prod.splits sum.splits)

lemma add_trace_length_le: "length (add_trace A R c k us w) \<le> length us"
  by (induction us arbitrary: w) (auto split: prod.splits sum.splits)

lemma session_trace_eq:
  assumes "aead_correct A" and "c \<noteq> k"
  shows "session_trace A R c k us w =
           map (\<lambda>i. Some (draw R (first_nonce k w + i) 12,
                          encrypt A (session_key R k w) (draw R (first_nonce k w + i) 12)
                            (enc_all (stored (take i us)))))
             [0..<length (session_trace A R c k us w)]"
proof -
  obtain r w0 where cr: "create_encrypted_container A R None c k w = (r, w0)"
    by (cases "create_encrypted_container A R None c k w")
  show ?thesis
  proof (cases r)
    case (Inl e)
    then show ?thesis by (simp add: session_trace_def cr)
  next
    case (Inr x)
    note cr1 = cr [unfolded Inr]
    note h = create_trace_head [OF assms cr1]
    let ?n = "length (add_trace A R c k us w0)"
    have t: "session_trace A R c k us w = container_parts c w0 # add_trace A R c k us w0"
      by (simp add: session_trace_def cr1)
    have at: "add_trace A R c k us w0 =
       map (\<lambda>i. Some (draw R (rng_next w0 + i) 12,
                      encrypt A (session_key R k w) (draw R (rng_next w0 + i) 12)
                        ([] @ enc_all (stored (take (Suc i) us)))))
         [0..<?n]"
      by (rule add_trace_eq [OF assms h(1)])
    have "container_parts c w0 # add_trace A R c k us w0 =
       map (\<lambda>i. Some (draw R (first_nonce k w + i) 12,
                          encrypt A (session_key R k w) (draw R (first_nonce k w + i) 12)
                            (enc_all (stored (take i us)))))
         [0..<Suc ?n]"
      unfolding map_upt_Suc
      by (subst at) (simp add: h(2,3) enc_all_def stored_def)
    then show ?thesis
      unfolding t by simp
  qed
qed

lemma session_trace_length:
  assumes "create_encrypted_container A R None c k w = (Inr (), w0)"
    and "fst (add_files A R c k us w0) = Inr ()"
  shows "length (session_trace A R c k us w) = Suc (length us)"
proof -
  obtain w1 where "add_files A R c k us w0 = (Inr (), w1)"
    using assms(2) by (cases "add_files A R c k us w0") simp
  then show ?thesis
    by (simp add: session_trace_def assms(1) add_trace_length)
qed

lemma session_trace_length_le: "length (session_trace A R c k us w) \<le> Suc (length us)"
  using add_trace_length_le [of A R c k us]
  by (auto simp: session_trace_def split: prod.splits sum.splits)

lemma distinct_map_Some: "distinct ys \<Longrightarrow> distinct (map Some ys)"
  by (simp add: distinct_map)

lemma distinct_shifted_prefix:
  assumes "distinct (map g [a..<a + n])" "m \<le> n"
  shows "distinct (map (\<lambda>i. Some (g (a + i))) [0..<m])"
proof -
  have "[a..<a + m + (n - m)] = [a..<a + m] @ [a + m..<a + m + (n - m)]"
    by (rule upt_add_eq_append) simp
  moreover have "a + m + (n - m) = a + n"
    using assms(2) by simp
  ultimately have "[a..<a + n] = [a..<a + m] @ [a + m..<a + n]"
    by simp
  with assms(1) have d: "distinct (map g [a..<a + m])" by simp
  have "[a..<a + m] = map (\<lambda>i. i + a) [0..<m]"
    by (simp add: map_add_upt add.commute)
  then have "map (\<lambda>i. g (a + i)) [0..<m] = map g [a..<a + m]"
    by (simp add: o_def add.commute)
  with d have "distinct (map (\<lambda>i. g (a + i)) [0..<m])" by simp
  then have "distinct (map Some (map (\<lambda>i. g (a + i)) [0..<m]))"
    by (rule distinct_map_Some)
  then show ?thesis by (simp add: o_def)
qed

text \<open>
  Claim C7. A session on one container, of \<open>create_encrypted_container\<close> followed by
  \<open>add_file_to_container\<close> calls: what each encryption leaves in the container file is
  the encryption, under the session's key, of the records so far, with a nonce that is
  a 12-byte draw of its own from the random source: the draws are consecutive, one per
  encryption, and no draw is used twice. Every call that succeeds contributes one. The
  nonces are pairwise different whenever the random source gives different values on
  these draws.
\<close>

theorem nonces_are_fresh_draws:
  assumes "aead_correct A" and "container_path \<noteq> key_path"
  shows "session_trace A R container_path key_path us w =
           map (\<lambda>i. Some (draw R (first_nonce key_path w + i) 12,
                          encrypt A (session_key R key_path w)
                            (draw R (first_nonce key_path w + i) 12)
                            (enc_all (stored (take i us)))))
             [0..<length (session_trace A R container_path key_path us w)]
       \<and> (create_encrypted_container A R None container_path key_path w = (Inr (), w0)
          \<and> fst (add_files A R container_path key_path us w0) = Inr ()
            \<longrightarrow> length (session_trace A R container_path key_path us w) = Suc (length us))
       \<and> (distinct (map (\<lambda>j. draw R j 12)
                      [first_nonce key_path w..<first_nonce key_path w + Suc (length us)])
            \<longrightarrow> distinct (map (map_option fst)
                           (session_trace A R container_path key_path us w)))"
proof (intro conjI impI)
  note eq = session_trace_eq [OF assms, of R us w]
  show "session_trace A R container_path key_path us w =
           map (\<lambda>i. Some (draw R (first_nonce key_path w + i) 12,
                          encrypt A (session_key R key_path w)
                            (draw R (first_nonce key_path w + i) 12)
                            (enc_all (stored (take i us)))))
             [0..<length (session_trace A R container_path key_path us w)]"
    by (rule eq)
  show "length (session_trace A R container_path key_path us w) = Suc (length us)"
    if "create_encrypted_container A R None container_path key_path w = (Inr (), w0)
          \<and> fst (add_files A R container_path key_path us w0) = Inr ()"
    using that by (auto intro: session_trace_length)
  assume d: "distinct (map (\<lambda>j. draw R j 12)
                      [first_nonce key_path w..<first_nonce key_path w + Suc (length us)])"
  let ?m = "length (session_trace A R container_path key_path us w)"
  have "distinct (map (\<lambda>i. Some (draw R (first_nonce key_path w + i) 12)) [0..<?m])"
    by (rule distinct_shifted_prefix [OF d session_trace_length_le])
  moreover have "map (map_option fst) (session_trace A R container_path key_path us w) =
      map (\<lambda>i. Some (draw R (first_nonce key_path w + i) 12)) [0..<?m]"
    by (subst eq) (simp add: o_def)
  ultimately show "distinct (map (map_option fst)
                           (session_trace A R container_path key_path us w))"
    by simp
qed

theorem nonces_are_fresh_draws_witness:
  "aead_correct demo_aead \<and> demo_container \<noteq> demo_key
   \<and> create_encrypted_container demo_aead demo_rand None demo_container demo_key empty_world
       = (Inr (), created)
   \<and> fst (add_files demo_aead demo_rand demo_container demo_key [(''a.txt'', ''hello'')] created)
       = Inr ()
   \<and> distinct (map (\<lambda>j. draw demo_rand j 12) [1, 2])
   \<and> session_trace demo_aead demo_rand demo_container demo_key [(''a.txt'', ''hello'')] empty_world =
       [Some (draw demo_rand 1 12,
              encrypt demo_aead (draw demo_rand 0 32) (draw demo_rand 1 12) []),
        Some (draw demo_rand 2 12,
              encrypt demo_aead (draw demo_rand 0 32) (draw demo_rand 2 12)
                (rec_bytes ''a.txt'' ''hello''))]
   \<and> distinct (map (map_option fst)
        (session_trace demo_aead demo_rand demo_container demo_key [(''a.txt'', ''hello'')]
           empty_world))"
proof -
  define u :: "string \<times> bytes" where "u = (''a.txt'', ''hello'')"
  define w1 where "w1 = snd (add_files demo_aead demo_rand demo_container demo_key [u] created)"
  have sz: "length (stored_name (fst u)) < 65536" "length (snd u) < 2 ^ 64"
    by (simp_all add: u_def a_txt_facts)
  note su = single_upload [OF sz, folded w1_def]
  have a: "fst (add_files demo_aead demo_rand demo_container demo_key [u] created) = Inr ()"
    unfolding su(1) by simp
  have pe: "\<not> path_exists empty_world demo_key"
    using demo_path_facts(8) by (simp add: path_exists_def node_at_plain empty_world_def)
  have fn: "first_nonce demo_key empty_world = 1"
    "session_key demo_rand demo_key empty_world = draw demo_rand 0 32"
    using pe by (simp_all add: first_nonce_def session_key_def empty_world_def)
  have d: "distinct (map (\<lambda>j. draw demo_rand j 12) [1, 2])"
    by (simp add: draw_def demo_rand_def upt_conv_Cons)
  have ix: "[first_nonce demo_key empty_world..<first_nonce demo_key empty_world + Suc (length [u])]
              = [1, 2]"
    by (simp add: fn upt_conv_Cons)
  note th = nonces_are_fresh_draws [OF aead_correct_demo demo_path_facts(4),
      of demo_rand "[u]" empty_world created]
  have len: "length (session_trace demo_aead demo_rand demo_container demo_key [u] empty_world) = 2"
    using conjunct1 [OF conjunct2 [OF th]] created_facts(1) a by simp
  have "session_trace demo_aead demo_rand demo_container demo_key [u] empty_world =
      map (\<lambda>i. Some (draw demo_rand (1 + i) 12,
                     encrypt demo_aead (draw demo_rand 0 32) (draw demo_rand (1 + i) 12)
                       (enc_all (stored (take i [u])))))
        [0..<2]"
    using conjunct1 [OF th] unfolding len fn .
  also have "\<dots> =
       [Some (draw demo_rand 1 12,
              encrypt demo_aead (draw demo_rand 0 32) (draw demo_rand 1 12) []),
        Some (draw demo_rand 2 12,
              encrypt demo_aead (draw demo_rand 0 32) (draw demo_rand 2 12)
                (rec_bytes ''a.txt'' ''hello''))]"
    by (simp add: upt_conv_Cons enc_all_def stored_def u_def a_txt_facts numeral_2_eq_2)
  finally have tr: "session_trace demo_aead demo_rand demo_container demo_key [u] empty_world =
       [Some (draw demo_rand 1 12,
              encrypt demo_aead (draw demo_rand 0 32) (draw demo_rand 1 12) []),
        Some (draw demo_rand 2 12,
              encrypt demo_aead (draw demo_rand 0 32) (draw demo_rand 2 12)
                (rec_bytes ''a.txt'' ''hello''))]" .
  have dd: "distinct (map (map_option fst)
        (session_trace demo_aead demo_rand demo_container demo_key [u] empty_world))"
    using conjunct2 [OF conjunct2 [OF th]] d unfolding ix by (rule mp)
  show ?thesis
    using aead_correct_demo demo_path_facts(4) created_facts(1) a d tr dd unfolding u_def
    by blast
qed











end
